theory Spec2Isabelle
  imports Complex_Main "HOL-Library.Multiset" "HOL-Library.Char_ord" "HOL-Library.List_Lexorder"
begin

section \<open>Data model: cells, frames, errors\<close>

text \<open>
  The program is written against pandas. A DataFrame is embedded row-major: an optional
  index name, the list of column names, and one entry per row holding the row's index
  label and its cells in column order.

  A float is a rational number, one of the two infinities, or NaN (the missing value);
  rounding of binary floating point is not part of the embedding. A timestamp is the
  number of nanoseconds since the epoch, as pandas stores it, together with its time
  zone: none (a tz-naive timestamp) or a named zone (a tz-aware one, the number then
  counting from the epoch in UTC). NaT is the missing timestamp.
\<close>

type_synonym timestamp = int

datatype zone = Naive | Zone string

datatype fl = Fin rat | PInf | NInf | NaN

datatype cell = Num fl | Str string | Time timestamp zone | NaT

text \<open>
  The exceptions the code can meet. \<open>OutsideModel\<close> is not an exception: it marks an input
  on which the behaviour of pandas is not part of this embedding (for instance a kWh
  column holding timestamps), so that no theorem says anything about such an input.
\<close>

datatype error = FileNotFoundError | KeyError | IndexError | ValueError | TypeError | OutsideModel

record frame =
  index_name :: "string option"
  columns :: "string list"
  rows :: "(cell \<times> cell list) list"

text \<open>\<^verbatim>\<open>df.empty\<close>: some axis has length zero.\<close>

definition df_empty :: "frame \<Rightarrow> bool" where
  "df_empty df = (rows df = [] \<or> columns df = [])"

text \<open>\<^verbatim>\<open>pd.DataFrame(columns=cs)\<close>: no rows, unnamed index.\<close>

definition empty_frame :: "string list \<Rightarrow> frame" where
  "empty_frame cs = \<lparr>index_name = None, columns = cs, rows = []\<rparr>"

text \<open>\<^verbatim>\<open>pd.isna\<close> on one cell.\<close>

fun isna :: "cell \<Rightarrow> bool" where
  "isna (Num NaN) = True"
| "isna NaT = True"
| "isna _ = False"

text \<open>
  Positions of the columns carrying a name. A row shorter than the header reads as
  NaN in the missing places, as \<^verbatim>\<open>read_csv\<close> pads it.
\<close>

definition col_positions :: "string \<Rightarrow> string list \<Rightarrow> nat list" where
  "col_positions c cs = filter (\<lambda>i. cs ! i = c) [0..<length cs]"

definition cell_at :: "nat \<Rightarrow> cell list \<Rightarrow> cell" where
  "cell_at i r = (if i < length r then r ! i else Num NaN)"

text \<open>
  \<^verbatim>\<open>df[c]\<close>: a KeyError when no column has the name, a Series (labels with values) when
  exactly one has, and a sub-frame when the name is duplicated.
\<close>

datatype selection = Missing | Series "(cell \<times> cell) list" | SubFrame "(cell \<times> cell list) list"

definition getitem :: "frame \<Rightarrow> string \<Rightarrow> selection" where
  "getitem df c =
     (case col_positions c (columns df) of
        [] \<Rightarrow> Missing
      | [i] \<Rightarrow> Series (map (\<lambda>(l, r). (l, cell_at i r)) (rows df))
      | _ \<Rightarrow> SubFrame (map (\<lambda>(l, r). (l, map (\<lambda>i. cell_at i r) (col_positions c (columns df)))) (rows df)))"

section \<open>Aggregator: \<^verbatim>\<open>find_peak_time\<close>\<close>

text \<open>The order of floats; every comparison with NaN is false.\<close>

fun fl_less :: "fl \<Rightarrow> fl \<Rightarrow> bool" where
  "fl_less NaN _ = False"
| "fl_less _ NaN = False"
| "fl_less (Fin a) (Fin b) = (a < b)"
| "fl_less _ NInf = False"
| "fl_less NInf _ = True"
| "fl_less PInf _ = False"
| "fl_less _ PInf = True"

text \<open>
  The numeric values of a Series. A Series holding a string has dtype object, on which
  \<^verbatim>\<open>idxmax\<close> raises TypeError; a Series holding timestamps is outside the embedding.
\<close>

fun numeric_values :: "(cell \<times> cell) list \<Rightarrow> error + (cell \<times> fl) list" where
  "numeric_values [] = Inr []"
| "numeric_values ((l, Num x) # s) =
     (case numeric_values s of Inl e \<Rightarrow> Inl e | Inr vs \<Rightarrow> Inr ((l, x) # vs))"
| "numeric_values ((l, Str v) # s) = Inl TypeError"
| "numeric_values ((l, _) # s) = Inl OutsideModel"

text \<open>
  \<^verbatim>\<open>Series.idxmax()\<close>: the label of the first occurrence of the maximum, NaN skipped;
  with nothing but NaN there is no label to return.
\<close>

fun first_max :: "(cell \<times> fl) \<Rightarrow> (cell \<times> fl) list \<Rightarrow> (cell \<times> fl)" where
  "first_max b [] = b"
| "first_max b (c # cs) = first_max (if fl_less (snd b) (snd c) then c else b) cs"

definition idxmax :: "(cell \<times> cell) list \<Rightarrow> error + cell" where
  "idxmax s =
     (case numeric_values s of
        Inl e \<Rightarrow> Inl e
      | Inr vs \<Rightarrow>
          (case filter (\<lambda>(l, v). v \<noteq> NaN) vs of
             [] \<Rightarrow> Inl ValueError
           | b # cs \<Rightarrow> Inr (fst (first_max b cs))))"

text \<open>
  \<^verbatim>\<open>df.loc[idx, "kWh"]\<close> on the column: the values of all rows labelled \<open>idx\<close>, in row
  order. One match is a scalar, several are a Series; the code takes the scalar itself
  or \<^verbatim>\<open>.iloc[0]\<close> of the Series, which in both cases is the first match.
\<close>

definition loc :: "cell \<Rightarrow> (cell \<times> cell) list \<Rightarrow> cell list" where
  "loc idx s = map snd (filter (\<lambda>(l, v). l = idx) s)"

definition find_peak_time :: "frame \<Rightarrow> error + (string \<times> cell) list" where
  "find_peak_time df =
     (if df_empty df then Inr []
      else
        (case getitem df ''kWh'' of
           Missing \<Rightarrow> Inl KeyError
         | SubFrame _ \<Rightarrow> Inl OutsideModel
         | Series s \<Rightarrow>
             (case idxmax s of
                Inl e \<Rightarrow> Inl e
              | Inr idx \<Rightarrow>
                  (case loc idx s of
                     [] \<Rightarrow> Inl KeyError
                   | Num peak_value # _ \<Rightarrow> Inr [(''timestamp'', idx), (''kWh'', Num peak_value)]
                   | _ \<Rightarrow> Inl OutsideModel))))"


section \<open>Aggregator: \<^verbatim>\<open>calculate_daily_totals\<close>\<close>

text \<open>Float addition, and the NaN-skipping sum of pandas (zero for no values).\<close>

fun fl_add :: "fl \<Rightarrow> fl \<Rightarrow> fl" where
  "fl_add NaN _ = NaN"
| "fl_add _ NaN = NaN"
| "fl_add (Fin a) (Fin b) = Fin (a + b)"
| "fl_add PInf NInf = NaN"
| "fl_add NInf PInf = NaN"
| "fl_add PInf _ = PInf"
| "fl_add _ PInf = PInf"
| "fl_add NInf _ = NInf"
| "fl_add _ NInf = NInf"

definition fl_sum :: "fl list \<Rightarrow> fl" where
  "fl_sum xs = foldl fl_add (Fin 0) (filter (\<lambda>x. x \<noteq> NaN) xs)"

definition ns_per_day :: int where
  "ns_per_day = 86400000000000"

text \<open>
  The timestamps of an index. \<^verbatim>\<open>resample\<close> raises TypeError on an index that is not a
  datetime index; an index with NaT or with tz-aware timestamps among its labels (whose
  days are those of their zone) is outside the embedding.
\<close>

fun index_times :: "(cell \<times> cell) list \<Rightarrow> error + (timestamp \<times> cell) list" where
  "index_times [] = Inr []"
| "index_times ((Time t Naive, v) # s) =
     (case index_times s of Inl e \<Rightarrow> Inl e | Inr vs \<Rightarrow> Inr ((t, v) # vs))"
| "index_times ((Time t (Zone z), v) # s) = Inl OutsideModel"
| "index_times ((NaT, v) # s) = Inl OutsideModel"
| "index_times ((_, v) # s) = Inl TypeError"

text \<open>
  \<^verbatim>\<open>df.resample("D")["kWh"].sum()\<close>: one bin per calendar day from the day of the earliest
  timestamp to the day of the latest, labelled by the day's start, holding the sum of
  the day's readings (zero for a day without readings).
\<close>

definition resample_D_sum :: "(timestamp \<times> fl) list \<Rightarrow> (cell \<times> cell list) list" where
  "resample_D_sum s =
     (case map (\<lambda>(t, v). t div ns_per_day) s of
        [] \<Rightarrow> []
      | d # ds \<Rightarrow>
          map (\<lambda>day. (Time (day * ns_per_day) Naive,
                 [Num (fl_sum (map snd (filter (\<lambda>(t, v). t div ns_per_day = day) s)))]))
            [fold min ds d .. fold max ds d])"

fun float_values :: "(timestamp \<times> cell) list \<Rightarrow> error + (timestamp \<times> fl) list" where
  "float_values [] = Inr []"
| "float_values ((t, Num x) # s) =
     (case float_values s of Inl e \<Rightarrow> Inl e | Inr vs \<Rightarrow> Inr ((t, x) # vs))"
| "float_values ((t, _) # s) = Inl OutsideModel"

definition calculate_daily_totals :: "frame \<Rightarrow> error + frame" where
  "calculate_daily_totals df =
     (if df_empty df then Inr (empty_frame [''kWh''])
      else
        (case getitem df ''kWh'' of
           Missing \<Rightarrow> Inl KeyError
         | SubFrame _ \<Rightarrow> Inl OutsideModel
         | Series s \<Rightarrow>
             (case index_times s of
                Inl e \<Rightarrow> Inl e
              | Inr ts \<Rightarrow>
                  (case float_values ts of
                     Inl e \<Rightarrow> Inl e
                   | Inr vs \<Rightarrow>
                       Inr \<lparr>index_name = Some ''date'', columns = [''daily_kWh''],
                            rows = resample_D_sum vs\<rparr>))))"

section \<open>Aggregator: \<^verbatim>\<open>building_wise_summary\<close>\<close>

text \<open>
  \<^verbatim>\<open>df.reset_index()\<close>: the index becomes the first column, named after the index
  (\<^verbatim>\<open>index\<close> for an unnamed one, \<^verbatim>\<open>level_0\<close> when that is taken); a name that is already
  a column raises ValueError. The new index counts the rows.
\<close>

definition reset_index :: "frame \<Rightarrow> error + frame" where
  "reset_index df =
     (let name = (case index_name df of
                    Some n \<Rightarrow> n
                  | None \<Rightarrow> if ''index'' \<in> set (columns df) then ''level_0'' else ''index'')
      in if name \<in> set (columns df) then Inl ValueError
         else Inr \<lparr>index_name = None, columns = name # columns df,
                   rows = map (\<lambda>(i, (l, r)). (Num (Fin (of_nat i)), l # map (\<lambda>j. cell_at j r) [0..<length (columns df)]))
                            (enumerate 0 (rows df))\<rparr>)"

text \<open>Minimum and maximum with NaN skipped (NaN when nothing is left), and the mean.\<close>

definition fl_min :: "fl list \<Rightarrow> fl" where
  "fl_min xs = (case filter (\<lambda>x. x \<noteq> NaN) xs of
                  [] \<Rightarrow> NaN
                | y # ys \<Rightarrow> fold (\<lambda>x m. if fl_less x m then x else m) ys y)"

definition fl_max :: "fl list \<Rightarrow> fl" where
  "fl_max xs = (case filter (\<lambda>x. x \<noteq> NaN) xs of
                  [] \<Rightarrow> NaN
                | y # ys \<Rightarrow> fold (\<lambda>x m. if fl_less m x then x else m) ys y)"

fun fl_div_nat :: "fl \<Rightarrow> nat \<Rightarrow> fl" where
  "fl_div_nat x 0 = NaN"
| "fl_div_nat (Fin a) n = Fin (a / of_nat n)"
| "fl_div_nat x n = x"

definition fl_mean :: "fl list \<Rightarrow> fl" where
  "fl_mean xs = fl_div_nat (fl_sum xs) (length (filter (\<lambda>x. x \<noteq> NaN) xs))"

text \<open>
  \<^verbatim>\<open>.round(3)\<close>: numpy rounds \<open>x * 1000\<close> to the nearest integer, halves to the even one,
  and divides by 1000; infinities and NaN stay.
\<close>

definition rint :: "rat \<Rightarrow> int" where
  "rint q =
     (let f = \<lfloor>q\<rfloor>; d = q - of_int f
      in if d < 1 / 2 then f else if 1 / 2 < d then f + 1 else if even f then f else f + 1)"

fun round3 :: "fl \<Rightarrow> fl" where
  "round3 (Fin x) = Fin (of_int (rint (x * 1000)) / 1000)"
| "round3 x = x"

text \<open>
  The group keys of \<^verbatim>\<open>groupby("Building")\<close>: rows with a missing key are dropped, the
  distinct keys are sorted. Keys that are not all strings are outside the embedding.
\<close>

fun string_keys :: "cell list \<Rightarrow> error + string list" where
  "string_keys [] = Inr []"
| "string_keys (Str k # cs) =
     (case string_keys cs of Inl e \<Rightarrow> Inl e | Inr ks \<Rightarrow> Inr (k # ks))"
| "string_keys (c # cs) = (if isna c then string_keys cs else Inl OutsideModel)"

fun group_values :: "(cell \<times> cell) list \<Rightarrow> error + fl list" where
  "group_values [] = Inr []"
| "group_values ((k, Num x) # s) =
     (case group_values s of Inl e \<Rightarrow> Inl e | Inr vs \<Rightarrow> Inr (x # vs))"
| "group_values ((k, _) # s) = Inl OutsideModel"

definition agg_group :: "(cell \<times> cell) list \<Rightarrow> string \<Rightarrow> error + (cell \<times> cell list)" where
  "agg_group s k =
     (case group_values (filter (\<lambda>(b, v). b = Str k) s) of
        Inl e \<Rightarrow> Inl e
      | Inr vs \<Rightarrow>
          Inr (Str k, [Num (round3 (fl_mean vs)), Num (round3 (fl_min vs)),
                       Num (round3 (fl_max vs)), Num (round3 (fl_sum vs))]))"

fun collect :: "(error + 'a) list \<Rightarrow> error + 'a list" where
  "collect [] = Inr []"
| "collect (Inl e # rs) = Inl e"
| "collect (Inr x # rs) = (case collect rs of Inl e \<Rightarrow> Inl e | Inr xs \<Rightarrow> Inr (x # xs))"

definition building_wise_summary :: "frame \<Rightarrow> error + frame" where
  "building_wise_summary df =
     (if df_empty df \<or> ''Building'' \<notin> set (columns df)
      then Inr (empty_frame [''mean'', ''min'', ''max'', ''sum''])
      else
        (case reset_index df of
           Inl e \<Rightarrow> Inl e
         | Inr d \<Rightarrow>
             (case (getitem d ''Building'', getitem d ''kWh'') of
                (Series b, Series v) \<Rightarrow>
                  (case string_keys (map snd b) of
                     Inl e \<Rightarrow> Inl e
                   | Inr ks \<Rightarrow>
                       (case collect (map (agg_group (zip (map snd b) (map snd v))) (sort (remdups ks))) of
                          Inl e \<Rightarrow> Inl e
                        | Inr grouped \<Rightarrow>
                            Inr \<lparr>index_name = Some ''Building'',
                                 columns = [''mean_kWh'', ''min_kWh'', ''max_kWh'', ''total_kWh''],
                                 rows = grouped\<rparr>))
              | (SubFrame _, _) \<Rightarrow> Inl ValueError
              | (_, Missing) \<Rightarrow> Inl KeyError
              | _ \<Rightarrow> Inl OutsideModel)))"

section \<open>Ingestor: \<^verbatim>\<open>ingest_csv_folder\<close>\<close>

subsection \<open>Files, directories, the parsers of pandas\<close>

text \<open>
  A file matched by \<^verbatim>\<open>data_dir.glob("*.csv")\<close>: its path as a string, its stem (the base
  name without the suffix), and what \<^verbatim>\<open>pd.read_csv\<close> returns for it, \<open>None\<close> when it
  raises. A frame read from a file holds numbers and strings; a missing field is NaN.
  \<^verbatim>\<open>read_csv\<close> makes repeated header names unique.

  A path is absent from the file system, a regular file, or a directory with the files
  the glob yields, in the order it yields them (a glob on a regular file yields nothing).
\<close>

record csv_file =
  path :: string
  stem :: string
  content :: "frame option"

datatype node = RegularFile | Directory "csv_file list"

type_synonym filesystem = "string \<Rightarrow> node option"

text \<open>
  The parsers of pandas are parameters of the embedding, so that every theorem holds
  whatever they accept. For \<^verbatim>\<open>pd.to_datetime(col, errors="coerce")\<close> on the column \<open>col\<close>:
  \<open>datetime_raises col\<close> says that the call raises all the same (some versions do on a
  column of mixed UTC offsets), and \<open>datetime_of col c\<close> is the timestamp and zone that
  the call gives the element \<open>c\<close> (the format is inferred from the column), \<open>None\<close> for
  NaT. \<open>number_of s\<close> is the float that \<^verbatim>\<open>pd.to_numeric(_, errors="coerce")\<close> gives the
  string \<open>s\<close>, NaN when it is not a number. \<open>mixed_zones_raise\<close> is the version of
  pandas: whether \<^verbatim>\<open>pd.to_datetime\<close> without \<^verbatim>\<open>utc=True\<close> raises on timestamps of
  different zones (pandas 3) or returns them with a warning (pandas 2).
\<close>

record parsers =
  datetime_of :: "cell list \<Rightarrow> cell \<Rightarrow> (timestamp \<times> zone) option"
  datetime_raises :: "cell list \<Rightarrow> bool"
  number_of :: "string \<Rightarrow> fl"
  mixed_zones_raise :: bool

definition to_datetime :: "parsers \<Rightarrow> cell list \<Rightarrow> cell list" where
  "to_datetime P col =
     map (\<lambda>c. case datetime_of P col c of Some (t, z) \<Rightarrow> Time t z | None \<Rightarrow> NaT) col"

text \<open>
  \<^verbatim>\<open>pd.to_datetime(col)\<close> without \<^verbatim>\<open>errors="coerce"\<close> on a column that holds timestamps
  already: it returns the column when the timestamps are all tz-naive or all of one
  zone, raises ValueError when tz-naive and tz-aware timestamps are mixed, and on
  tz-aware timestamps of different zones does what the version of pandas does.
\<close>

fun zone_of :: "cell \<Rightarrow> zone option" where
  "zone_of (Time t z) = Some z"
| "zone_of _ = None"

definition zones_accepted :: "parsers \<Rightarrow> zone list \<Rightarrow> bool" where
  "zones_accepted P zs =
     (length (remdups zs) \<le> 1 \<or> (Naive \<notin> set zs \<and> \<not> mixed_zones_raise P))"

definition to_datetime_strict :: "parsers \<Rightarrow> cell list \<Rightarrow> error + cell list" where
  "to_datetime_strict P col =
     (if zones_accepted P (List.map_filter zone_of col) then Inr col else Inl ValueError)"

text \<open>
  \<^verbatim>\<open>pd.to_numeric\<close> keeps a number as it is, infinities included, parses a string, and
  reads a timestamp as its integer value.
\<close>

fun to_numeric :: "parsers \<Rightarrow> cell \<Rightarrow> cell" where
  "to_numeric P (Num x) = Num x"
| "to_numeric P (Str s) = Num (number_of P s)"
| "to_numeric P (Time t z) = Num (Fin (of_int t))"
| "to_numeric P NaT = Num (Fin (- (2 ^ 63)))"

subsection \<open>Column names\<close>

text \<open>
  \<^verbatim>\<open>str.strip\<close> and \<^verbatim>\<open>str.lower\<close> on strings of code points below 256: the white space of
  Python, and the upper-case letters of ASCII and Latin-1.
\<close>

definition is_space :: "char \<Rightarrow> bool" where
  "is_space c =
     (let n = (of_char c :: nat)
      in (9 \<le> n \<and> n \<le> 13) \<or> (28 \<le> n \<and> n \<le> 32) \<or> n = 133 \<or> n = 160)"

definition strip :: "string \<Rightarrow> string" where
  "strip s = rev (dropWhile is_space (rev (dropWhile is_space s)))"

definition lower_char :: "char \<Rightarrow> char" where
  "lower_char c =
     (let n = (of_char c :: nat)
      in if (65 \<le> n \<and> n \<le> 90) \<or> (192 \<le> n \<and> n \<le> 222 \<and> n \<noteq> 215)
         then char_of (n + 32) else c)"

definition lower :: "string \<Rightarrow> string" where
  "lower s = map lower_char s"

text \<open>
  The loop building \<^verbatim>\<open>col_map\<close>: two independent tests per column, the second
  overwriting the first.
\<close>

definition col_map_step :: "string \<Rightarrow> (string \<rightharpoonup> string) \<Rightarrow> (string \<rightharpoonup> string)" where
  "col_map_step c m =
     (let lc = lower (strip c);
          m1 = (if lc \<in> set [''timestamp'', ''time'', ''date''] then m(c \<mapsto> ''timestamp'') else m)
      in if lc \<in> set [''kwh'', ''kw'', ''energy''] then m1(c \<mapsto> ''kWh'') else m1)"

definition col_map :: "string list \<Rightarrow> (string \<rightharpoonup> string)" where
  "col_map cs = fold col_map_step cs Map.empty"

text \<open>\<^verbatim>\<open>df.rename(columns=m)\<close>.\<close>

definition rename :: "(string \<rightharpoonup> string) \<Rightarrow> frame \<Rightarrow> frame" where
  "rename m df = df\<lparr>columns := map (\<lambda>c. case m c of Some n \<Rightarrow> n | None \<Rightarrow> c) (columns df)\<rparr>"

subsection \<open>Frame operations\<close>

text \<open>A row brought to the width of the header.\<close>

definition pad :: "nat \<Rightarrow> cell list \<Rightarrow> cell list" where
  "pad n r = map (\<lambda>j. cell_at j r) [0..<n]"

text \<open>
  \<^verbatim>\<open>df[c] = values\<close>, one value per row: an existing column is overwritten, a new one is
  appended.
\<close>

definition assign :: "string \<Rightarrow> cell list \<Rightarrow> frame \<Rightarrow> frame" where
  "assign c vs df =
     (let n = length (columns df) in
      case col_positions c (columns df) of
        [] \<Rightarrow> df\<lparr>columns := columns df @ [c],
                  rows := map (\<lambda>((l, r), v). (l, pad n r @ [v])) (zip (rows df) vs)\<rparr>
      | ps \<Rightarrow> df\<lparr>rows := map (\<lambda>((l, r), v). (l, fold (\<lambda>i x. x[i := v]) ps (pad n r))) (zip (rows df) vs)\<rparr>)"

text \<open>\<^verbatim>\<open>df.dropna(subset=cs)\<close>: a row stays when none of the named cells is missing.\<close>

definition dropna :: "string list \<Rightarrow> frame \<Rightarrow> frame" where
  "dropna cs df =
     df\<lparr>rows := filter (\<lambda>(l, r). list_all (\<lambda>c. list_all (\<lambda>i. \<not> isna (cell_at i r))
                         (col_positions c (columns df))) cs) (rows df)\<rparr>"

text \<open>\<^verbatim>\<open>df[[c1, c2, ...]]\<close>: the named columns in the order asked for.\<close>

definition select :: "string list \<Rightarrow> frame \<Rightarrow> frame" where
  "select cs df =
     df\<lparr>columns := concat (map (\<lambda>c. map (\<lambda>i. c) (col_positions c (columns df))) cs),
        rows := map (\<lambda>(l, r). (l, concat (map (\<lambda>c. map (\<lambda>i. cell_at i r) (col_positions c (columns df))) cs)))
                  (rows df)\<rparr>"

text \<open>
  \<^verbatim>\<open>pd.concat(frames, ignore_index=True)\<close> of frames with the same columns: the rows in
  order, labelled 0, 1, 2, ...
\<close>

definition concat_frames :: "string list \<Rightarrow> frame list \<Rightarrow> frame" where
  "concat_frames cs fs =
     \<lparr>index_name = None, columns = cs,
      rows = map (\<lambda>(i, (l, r)). (Num (Fin (of_nat i)), r)) (enumerate 0 (concat (map rows fs)))\<rparr>"

text \<open>
  \<^verbatim>\<open>df.sort_values(c)\<close> on a column of timestamps: ascending (tz-aware timestamps by
  their instant), the rows without a timestamp last. pandas does not fix the order of
  rows with equal timestamps; the embedding keeps them in their order.
\<close>

definition time_at :: "nat \<Rightarrow> cell \<times> cell list \<Rightarrow> timestamp option" where
  "time_at i lr = (case cell_at i (snd lr) of Time t z \<Rightarrow> Some t | _ \<Rightarrow> None)"

definition sort_values :: "string \<Rightarrow> frame \<Rightarrow> error + frame" where
  "sort_values c df =
     (case col_positions c (columns df) of
        [] \<Rightarrow> Inl KeyError
      | i # _ \<Rightarrow>
          Inr (df\<lparr>rows := sort_key (\<lambda>lr. case time_at i lr of Some t \<Rightarrow> t | None \<Rightarrow> 0)
                            (filter (\<lambda>lr. time_at i lr \<noteq> None) (rows df))
                          @ filter (\<lambda>lr. time_at i lr = None) (rows df)\<rparr>))"

text \<open>\<^verbatim>\<open>df.set_index(c)\<close>: the column becomes the index and leaves the columns.\<close>

definition set_index :: "string \<Rightarrow> frame \<Rightarrow> error + frame" where
  "set_index c df =
     (case col_positions c (columns df) of
        [] \<Rightarrow> Inl KeyError
      | i # _ \<Rightarrow>
          Inr \<lparr>index_name = Some c,
               columns = take i (columns df) @ drop (Suc i) (columns df),
               rows = map (\<lambda>(l, r). (cell_at i r, take i r @ drop (Suc i) r)) (rows df)\<rparr>)"

subsection \<open>One file\<close>

text \<open>
  The body of the loop for one file. The file gives a cleaned frame, or is skipped for
  its missing columns (with the renamed column names, for the log), or an exception is
  caught. The exceptions: \<^verbatim>\<open>read_csv\<close> raising; \<^verbatim>\<open>.iloc[0]\<close> on a \<^verbatim>\<open>Building\<close> column
  without rows (IndexError); \<^verbatim>\<open>pd.to_datetime\<close> on the sub-frame that two columns renamed
  to \<^verbatim>\<open>timestamp\<close> make (ValueError), or raising on the column; \<^verbatim>\<open>pd.to_numeric\<close> on the
  sub-frame that two columns renamed to \<^verbatim>\<open>kWh\<close> make (TypeError). A repeated \<^verbatim>\<open>Building\<close> header does not come out
  of \<^verbatim>\<open>read_csv\<close>; the embedding lets the file fail there.
\<close>

datatype outcome = Cleaned frame | MissingColumns "string list" | Failed

definition building_of :: "csv_file \<Rightarrow> frame \<Rightarrow> cell option" where
  "building_of f df =
     (if ''Building'' \<in> set (columns df)
      then (case getitem df ''Building'' of
              Series ((l, v) # _) \<Rightarrow> Some v
            | _ \<Rightarrow> None)
      else Some (Str (stem f)))"

definition clean :: "parsers \<Rightarrow> cell \<Rightarrow> frame \<Rightarrow> outcome" where
  "clean P building_name df0 =
     (let df1 = assign ''Building'' (replicate (length (rows df0)) building_name) df0 in
      case getitem df1 ''timestamp'' of
        Series ts \<Rightarrow>
          if datetime_raises P (map snd ts) then Failed
          else
            (let df2 = assign ''timestamp'' (to_datetime P (map snd ts)) df1 in
             case getitem df2 ''kWh'' of
               Series ks \<Rightarrow>
                 (let df3 = assign ''kWh'' (map (to_numeric P \<circ> snd) ks) df2;
                      df4 = dropna [''timestamp'', ''kWh''] df3
                  in Cleaned (select [''timestamp'', ''kWh'', ''Building''] df4))
             | _ \<Rightarrow> Failed)
      | _ \<Rightarrow> Failed)"

definition process_file :: "parsers \<Rightarrow> csv_file \<Rightarrow> outcome" where
  "process_file P f =
     (case content f of
        None \<Rightarrow> Failed
      | Some df \<Rightarrow>
          (case building_of f df of
             None \<Rightarrow> Failed
           | Some building_name \<Rightarrow>
               (let df0 = rename (col_map (columns df)) df in
                if \<not> (''timestamp'' \<in> set (columns df0) \<and> ''kWh'' \<in> set (columns df0))
                then MissingColumns (columns df0)
                else clean P building_name df0)))"

subsection \<open>The directory\<close>

text \<open>
  What a call leaves behind besides the frame it returns: the list \<^verbatim>\<open>bad_files\<close> and the
  log entries, in order.
\<close>

datatype log_entry =
    NoCsvFiles
  | SkippingMissingColumns string "string list"
  | FailedToRead string
  | NoValidData
  | CombinedCreated nat nat
  | FilesSkipped "string list"

record ingest_state =
  frames :: "frame list"
  bad_files :: "string list"
  log :: "log_entry list"

definition ingest_step :: "parsers \<Rightarrow> csv_file \<Rightarrow> ingest_state \<Rightarrow> ingest_state" where
  "ingest_step P f st =
     (case process_file P f of
        Cleaned df \<Rightarrow> st\<lparr>frames := frames st @ [df]\<rparr>
      | MissingColumns cs \<Rightarrow>
          st\<lparr>bad_files := bad_files st @ [path f],
             log := log st @ [SkippingMissingColumns (path f) cs]\<rparr>
      | Failed \<Rightarrow>
          st\<lparr>bad_files := bad_files st @ [path f], log := log st @ [FailedToRead (path f)]\<rparr>)"

record ingest_result =
  dataset :: frame
  skipped :: "string list"
  logged :: "log_entry list"

definition empty_dataset :: frame where
  "empty_dataset = \<lparr>index_name = Some ''timestamp'', columns = [''kWh'', ''Building''], rows = []\<rparr>"

text \<open>
  The end of the function, outside the \<^verbatim>\<open>try\<close>: concatenate, convert the timestamp
  column once more (this time without \<^verbatim>\<open>errors="coerce"\<close>, so that the call raises when
  the files do not agree on their time zones), sort by timestamp, index by timestamp.
\<close>

definition combine :: "parsers \<Rightarrow> frame list \<Rightarrow> error + frame" where
  "combine P fs =
     (let combined = concat_frames [''timestamp'', ''kWh'', ''Building''] fs in
      case getitem combined ''timestamp'' of
        Series ts \<Rightarrow>
          (case to_datetime_strict P (map snd ts) of
             Inl e \<Rightarrow> Inl e
           | Inr col \<Rightarrow>
               (case sort_values ''timestamp'' (assign ''timestamp'' col combined) of
                  Inl e \<Rightarrow> Inl e
                | Inr sorted_df \<Rightarrow> set_index ''timestamp'' sorted_df))
      | _ \<Rightarrow> Inl KeyError)"

definition ingest_files :: "parsers \<Rightarrow> csv_file list \<Rightarrow> error + ingest_result" where
  "ingest_files P files =
     (if files = []
      then Inr \<lparr>dataset = empty_dataset, skipped = [], logged = [NoCsvFiles]\<rparr>
      else
        (let st = fold (ingest_step P) files \<lparr>frames = [], bad_files = [], log = []\<rparr> in
         if frames st = []
         then Inr \<lparr>dataset = empty_dataset, skipped = bad_files st, logged = log st @ [NoValidData]\<rparr>
         else
           (case combine P (frames st) of
              Inl e \<Rightarrow> Inl e
            | Inr combined \<Rightarrow>
                Inr \<lparr>dataset = combined, skipped = bad_files st,
                     logged = log st @ [CombinedCreated (length (rows combined)) (length files)]
                       @ (if bad_files st = [] then [] else [FilesSkipped (bad_files st)])\<rparr>)))"

text \<open>\<^verbatim>\<open>list(data_dir.glob("*.csv"))\<close>.\<close>

fun glob_csv :: "node \<Rightarrow> csv_file list" where
  "glob_csv RegularFile = []"
| "glob_csv (Directory files) = files"

definition ingest_csv_folder :: "parsers \<Rightarrow> filesystem \<Rightarrow> string \<Rightarrow> error + ingest_result" where
  "ingest_csv_folder P fs data_dir =
     (case fs data_dir of
        None \<Rightarrow> Inl FileNotFoundError
      | Some n \<Rightarrow> ingest_files P (glob_csv n))"

section \<open>Notions used in the statements\<close>

text \<open>The maximum of a non-empty list of floats without NaN.\<close>

definition is_max :: "fl \<Rightarrow> fl list \<Rightarrow> bool" where
  "is_max m xs = (m \<in> set xs \<and> list_all (\<lambda>x. \<not> fl_less m x) xs)"

text \<open>The number in a cell.\<close>

fun num_of :: "cell \<Rightarrow> fl" where
  "num_of (Num x) = x"
| "num_of _ = NaN"

text \<open>Shape of the rows of a cleaned frame.\<close>

fun reading_row :: "cell list \<Rightarrow> bool" where
  "reading_row [Time t z, Num x, b] = (x \<noteq> NaN)"
| "reading_row _ = False"

definition cleaned_frame :: "frame \<Rightarrow> bool" where
  "cleaned_frame fr = (columns fr = [''timestamp'', ''kWh'', ''Building'']
     \<and> list_all (\<lambda>(l, r). reading_row r) (rows fr))"

definition canonical :: "string \<Rightarrow> string option" where
  "canonical c =
     (let lc = lower (strip c)
      in if lc \<in> set [''kwh'', ''kw'', ''energy''] then Some ''kWh''
         else if lc \<in> set [''timestamp'', ''time'', ''date''] then Some ''timestamp''
         else None)"

definition new_name :: "string \<Rightarrow> string" where
  "new_name c = (case canonical c of Some n \<Rightarrow> n | None \<Rightarrow> c)"

definition cleaned_frames :: "parsers \<Rightarrow> csv_file list \<Rightarrow> frame list" where
  "cleaned_frames P files =
     concat (map (\<lambda>f. case process_file P f of Cleaned fr \<Rightarrow> [fr] | _ \<Rightarrow> []) files)"

definition bad_paths :: "parsers \<Rightarrow> csv_file list \<Rightarrow> string list" where
  "bad_paths P files =
     concat (map (\<lambda>f. case process_file P f of Cleaned fr \<Rightarrow> [] | _ \<Rightarrow> [path f]) files)"

definition indexed :: "cell list \<Rightarrow> cell \<times> cell list" where
  "indexed r = (cell_at 0 r, drop 1 r)"

definition all_rows :: "frame list \<Rightarrow> cell list list" where
  "all_rows fs = concat (map (\<lambda>fr. map snd (rows fr)) fs)"

definition sorted_rows :: "(cell \<times> cell list) list \<Rightarrow> (cell \<times> cell list) list" where
  "sorted_rows R = sort_key (\<lambda>lr. case time_at 0 lr of Some t \<Rightarrow> t | None \<Rightarrow> 0)
       (filter (\<lambda>lr. time_at 0 lr \<noteq> None) R) @ filter (\<lambda>lr. time_at 0 lr = None) R"

definition dataset_of :: "frame list \<Rightarrow> frame" where
  "dataset_of frs = (if frs = [] then empty_dataset
     else \<lparr>index_name = Some ''timestamp'', columns = [''kWh'', ''Building''],
           rows = map (indexed \<circ> snd) (sorted_rows (rows (concat_frames [''timestamp'', ''kWh'', ''Building''] frs)))\<rparr>)"

text \<open>
  The zones of the timestamps in the first cells of rows, and of the labels of a dataset.
\<close>

definition row_zones :: "cell list list \<Rightarrow> zone list" where
  "row_zones rs = List.map_filter zone_of (map (cell_at 0) rs)"


text \<open>
  The readings that a file holds, said without the frame operations: the file must be
  readable, give a building name, and have under the canonical names exactly one time
  column and one energy column, and the parsing of the time column must not raise; then
  every row whose time parses and whose energy is a number other than NaN is a reading,
  with the parsed time as its label and the number and the building name as its
  values, and no other row is. \<open>number_in\<close> is the number that pandas reads in a cell.
\<close>

fun number_in :: "parsers \<Rightarrow> cell \<Rightarrow> fl" where
  "number_in P (Num x) = x"
| "number_in P (Str s) = number_of P s"
| "number_in P (Time t z) = Fin (of_int t)"
| "number_in P NaT = Fin (- (2 ^ 63))"

definition reading_of :: "parsers \<Rightarrow> cell list \<Rightarrow> nat \<Rightarrow> nat \<Rightarrow> cell \<Rightarrow> cell list \<Rightarrow> (cell \<times> cell list) list" where
  "reading_of P col i j b r =
     (case datetime_of P col (cell_at i r) of
        None \<Rightarrow> []
      | Some (t, z) \<Rightarrow>
          if number_in P (cell_at j r) = NaN then []
          else [(Time t z, [Num (number_in P (cell_at j r)), b])])"

definition readings_of :: "parsers \<Rightarrow> csv_file \<Rightarrow> (cell \<times> cell list) list" where
  "readings_of P f =
     (case content f of
        None \<Rightarrow> []
      | Some df \<Rightarrow>
          (case building_of f df of
             None \<Rightarrow> []
           | Some b \<Rightarrow>
               (let cs = map new_name (columns df) in
                case (col_positions ''timestamp'' cs, col_positions ''kWh'' cs) of
                  ([i], [j]) \<Rightarrow>
                    (let col = map (\<lambda>(l, r). cell_at i r) (rows df) in
                     if datetime_raises P col then []
                     else concat (map (\<lambda>(l, r). reading_of P col i j b r) (rows df)))
                | _ \<Rightarrow> [])))"


text \<open>A finite float.\<close>

definition is_finite :: "fl \<Rightarrow> bool" where
  "is_finite x = (case x of Fin q \<Rightarrow> True | _ \<Rightarrow> False)"

text \<open>
  The scenario of the specification, used to run the theorems on concrete input: file A
  with two readings, file B with one reading and a \<^verbatim>\<open>Building\<close> column; further a file
  without a time column (C), a file with other spellings of the column names, a
  lower-case \<^verbatim>\<open>building\<close> column and unparseable values (D), a file with an infinite
  reading (E), and a file whose timestamp carries a UTC offset (Z). The parsers read the
  timestamps of the scenario and the number 15.
\<close>

definition scenario_parsers :: parsers where
  "scenario_parsers =
     \<lparr>datetime_of = (\<lambda>col. map_of
        [(Str ''2024-01-01 00:00'', (1704067200000000000, Naive)),
         (Str ''2024-01-01 00:30'', (1704069000000000000, Naive)),
         (Str ''2024-01-01 01:00'', (1704070800000000000, Naive)),
         (Str ''2024-01-01 00:15+00:00'', (1704068100000000000, Zone ''UTC''))]),
      datetime_raises = (\<lambda>col. False),
      number_of = (\<lambda>s. if s = ''15'' then Fin 15 else NaN),
      mixed_zones_raise = False\<rparr>"

definition frame_A :: frame where
  "frame_A = \<lparr>index_name = None, columns = [''timestamp'', ''kWh''],
     rows = [(Num (Fin 0), [Str ''2024-01-01 00:00'', Num (Fin 10)]),
             (Num (Fin 1), [Str ''2024-01-01 01:00'', Num (Fin 15)])]\<rparr>"

definition file_A :: csv_file where
  "file_A = \<lparr>path = ''data/A.csv'', stem = ''A'', content = Some frame_A\<rparr>"

definition file_B :: csv_file where
  "file_B = \<lparr>path = ''data/B.csv'', stem = ''B'',
     content = Some \<lparr>index_name = None, columns = [''timestamp'', ''kWh'', ''Building''],
       rows = [(Num (Fin 0), [Str ''2024-01-01 00:30'', Num (Fin 5), Str ''Hall''])]\<rparr>\<rparr>"

definition file_C :: csv_file where
  "file_C = \<lparr>path = ''data/C.csv'', stem = ''C'',
     content = Some \<lparr>index_name = None, columns = [''when'', ''kWh''],
       rows = [(Num (Fin 0), [Str ''2024-01-01 00:30'', Num (Fin 7)])]\<rparr>\<rparr>"

definition file_D :: csv_file where
  "file_D = \<lparr>path = ''data/D.csv'', stem = ''D'',
     content = Some \<lparr>index_name = None, columns = [''Time'', ''ENERGY'', ''building''],
       rows = [(Num (Fin 0), [Str ''2024-01-01 00:30'', Str ''15'', Str ''Hall'']),
               (Num (Fin 1), [Str ''not a time'', Str ''15'', Str ''Hall'']),
               (Num (Fin 2), [Str ''2024-01-01 01:00'', Str ''n/a'', Str ''Hall''])]\<rparr>\<rparr>"

definition file_E :: csv_file where
  "file_E = \<lparr>path = ''data/E.csv'', stem = ''E'',
     content = Some \<lparr>index_name = None, columns = [''timestamp'', ''kWh''],
       rows = [(Num (Fin 0), [Str ''2024-01-01 00:00'', Num PInf])]\<rparr>\<rparr>"

definition file_Z :: csv_file where
  "file_Z = \<lparr>path = ''data/Z.csv'', stem = ''Z'',
     content = Some \<lparr>index_name = None, columns = [''timestamp'', ''kWh''],
       rows = [(Num (Fin 0), [Str ''2024-01-01 00:15+00:00'', Num (Fin 8)])]\<rparr>\<rparr>"

definition scenario_fs :: filesystem where
  "scenario_fs = [''data'' \<mapsto> Directory [file_A, file_B], ''a'' \<mapsto> Directory [file_A],
     ''b'' \<mapsto> Directory [file_B], ''d'' \<mapsto> Directory [file_D], ''e'' \<mapsto> Directory [file_E],
     ''z'' \<mapsto> Directory [file_Z], ''az'' \<mapsto> Directory [file_A, file_Z]]"

definition scenario_dataset :: frame where
  "scenario_dataset = \<lparr>index_name = Some ''timestamp'', columns = [''kWh'', ''Building''],
     rows = [(Time 1704067200000000000 Naive, [Num (Fin 10), Str ''A'']),
             (Time 1704069000000000000 Naive, [Num (Fin 5), Str ''Hall'']),
             (Time 1704070800000000000 Naive, [Num (Fin 15), Str ''A''])]\<rparr>"

text \<open>What an assignment to the column \<open>c\<close> makes of one row, for the value \<open>v\<close>.\<close>

definition upd_row :: "string \<Rightarrow> string list \<Rightarrow> cell list \<Rightarrow> cell \<Rightarrow> cell list" where
  "upd_row c cs r v =
     (if col_positions c cs = [] then pad (length cs) r @ [v]
      else fold (\<lambda>i x. x[i := v]) (col_positions c cs) (pad (length cs) r))"

text \<open>The cell that \<^verbatim>\<open>to_datetime\<close> makes of a cell of the column \<open>col\<close>.\<close>

definition parsed_time :: "parsers \<Rightarrow> cell list \<Rightarrow> cell \<Rightarrow> cell" where
  "parsed_time P col c = (case datetime_of P col c of Some (t, z) \<Rightarrow> Time t z | None \<Rightarrow> NaT)"

text \<open>The rows that a file contributes, as rows of the dataset.\<close>

definition file_readings :: "parsers \<Rightarrow> csv_file \<Rightarrow> (cell \<times> cell list) list" where
  "file_readings P f =
     (case process_file P f of Cleaned fr \<Rightarrow> map (indexed \<circ> snd) (rows fr) | _ \<Rightarrow> [])"

text \<open>The final conversion accepts the timestamps of the files' cleaned frames.\<close>

definition accepted :: "parsers \<Rightarrow> csv_file list \<Rightarrow> bool" where
  "accepted P files = zones_accepted P (row_zones (all_rows (cleaned_frames P files)))"

section \<open>Lemmas on frames and on the ingestion loop\<close>

lemma col_positions_Nil_iff: "col_positions c cs = [] \<longleftrightarrow> c \<notin> set cs"
  by (auto simp: col_positions_def filter_empty_conv in_set_conv_nth)

lemma set_col_positions: "set (col_positions c cs) = {i. i < length cs \<and> cs ! i = c}"
  by (auto simp: col_positions_def)

lemma col_positions_append_new:
  "c \<notin> set cs \<Longrightarrow> col_positions c (cs @ [c]) = [length cs]"
  by (auto simp: col_positions_def nth_append filter_empty_conv in_set_conv_nth)

lemma col_positions_map:
  assumes "\<And>x. x \<in> set cs \<Longrightarrow> (g x = c) = (x = c)"
  shows "col_positions c (map g cs) = col_positions c cs"
proof -
  have "(map g cs ! i = c) = (cs ! i = c)" if "i < length cs" for i
    using that assms [of "cs ! i"] by simp
  then have "filter (\<lambda>i. map g cs ! i = c) [0..<length cs] = filter (\<lambda>i. cs ! i = c) [0..<length cs]"
    by (intro filter_cong) simp_all
  then show ?thesis
    by (simp add: col_positions_def)
qed

lemma cell_at_pad: "q < n \<Longrightarrow> cell_at q (pad n r) = cell_at q r"
  by (simp add: pad_def cell_at_def)

lemma length_pad: "length (pad n r) = n"
  by (simp add: pad_def)

lemma length_fold_update: "length (fold (\<lambda>i x. x[i := v]) ps xs) = length xs"
  by (induction ps arbitrary: xs) auto

lemma nth_fold_update:
  "q < length xs \<Longrightarrow> fold (\<lambda>i x. x[i := v]) ps xs ! q = (if q \<in> set ps then v else xs ! q)"
  by (induction ps arbitrary: xs) (auto simp: nth_list_update length_fold_update)

lemma columns_assign:
  "columns (assign c vs df) = (if c \<in> set (columns df) then columns df else columns df @ [c])"
  using col_positions_Nil_iff [of c "columns df"]
  by (auto simp: assign_def Let_def split: list.splits)

lemma assign_existing:
  "col_positions c (columns df) \<noteq> [] \<Longrightarrow>
   assign c vs df = df\<lparr>rows := map (\<lambda>((l, r), v). (l, fold (\<lambda>i x. x[i := v]) (col_positions c (columns df))
       (pad (length (columns df)) r))) (zip (rows df) vs)\<rparr>"
  by (cases "col_positions c (columns df)") (simp_all add: assign_def del: fold_simps)

lemma assign_rows:
  assumes "(l', r') \<in> set (rows (assign c vs df))"
  shows "\<exists>r v. ((l', r), v) \<in> set (zip (rows df) vs)
     \<and> length r' = length (columns (assign c vs df))
     \<and> (\<forall>p \<in> set (col_positions c (columns (assign c vs df))). cell_at p r' = v)
     \<and> (\<forall>q < length (columns df). columns df ! q \<noteq> c \<longrightarrow> cell_at q r' = cell_at q r)"
proof (cases "c \<in> set (columns df)")
  case False
  then have pos: "col_positions c (columns df) = []"
    by (simp add: col_positions_Nil_iff)
  from assms obtain r v where m: "((l', r), v) \<in> set (zip (rows df) vs)"
    and r': "r' = pad (length (columns df)) r @ [v]"
    by (auto simp: assign_def pos)
  have "cell_at q r' = cell_at q r" if "q < length (columns df)" for q
    using that cell_at_pad [of q "length (columns df)" r]
    by (simp add: r' cell_at_def nth_append length_pad)
  with m r' False show ?thesis
    by (auto simp: columns_assign col_positions_append_new length_pad cell_at_def nth_append)
next
  case True
  define qs where "qs = col_positions c (columns df)"
  define xs where "xs r = pad (length (columns df)) r" for r
  from True have ne: "qs \<noteq> []"
    by (simp add: qs_def col_positions_Nil_iff)
  from assms ne obtain r v where m: "((l', r), v) \<in> set (zip (rows df) vs)"
    and r': "r' = fold (\<lambda>i x. x[i := v]) qs (xs r)"
    using assign_existing [of c df vs] by (auto simp: qs_def xs_def)
  have len: "length r' = length (columns df)"
    unfolding r' by (simp add: length_fold_update xs_def length_pad)
  have a: "cell_at q r' = v" if "q \<in> set qs" for q
  proof -
    from that have "q < length (xs r)"
      by (simp add: qs_def set_col_positions xs_def length_pad)
    then show ?thesis
      using that nth_fold_update [of q "xs r" v qs]
      by (simp add: cell_at_def r' length_fold_update)
  qed
  have b: "cell_at q r' = cell_at q r" if "q < length (columns df)" "columns df ! q \<noteq> c" for q
  proof -
    from that have "q \<notin> set qs"
      by (simp add: qs_def set_col_positions)
    moreover from that have "q < length (xs r)"
      by (simp add: xs_def length_pad)
    ultimately show ?thesis
      using that nth_fold_update [of q "xs r" v qs] cell_at_pad [of q "length (columns df)" r]
      by (simp add: cell_at_def r' length_fold_update xs_def)
  qed
  from m len a b True show ?thesis
    by (auto simp: columns_assign qs_def)
qed

lemma getitem_Series:
  assumes "getitem df c = Series s"
  shows "\<exists>i. col_positions c (columns df) = [i] \<and> s = map (\<lambda>(l, r). (l, cell_at i r)) (rows df)"
  using assms by (auto simp: getitem_def split: list.splits)

lemma to_numeric_Num: "\<exists>x. to_numeric P c = Num x"
  by (cases c) auto

lemma to_datetime_cases: "v \<in> set (to_datetime P col) \<Longrightarrow> v = NaT \<or> (\<exists>t z. v = Time t z)"
  by (auto simp: to_datetime_def split: option.splits)

lemma zip_replicate_snd: "(x, v) \<in> set (zip xs (replicate n b)) \<Longrightarrow> v = b"
  by (auto dest: set_zip_rightD)

lemma clean_rows:
  assumes c: "clean P b df0 = Cleaned fr"
    and bpos: "col_positions ''Building'' (columns df0) = [] \<or> (\<exists>k. col_positions ''Building'' (columns df0) = [k])"
  shows "columns fr = [''timestamp'', ''kWh'', ''Building'']"
    and "(l, r) \<in> set (rows fr) \<Longrightarrow> \<exists>t z x. r = [Time t z, Num x, b] \<and> x \<noteq> NaN"
proof -
  define df1 where "df1 = assign ''Building'' (replicate (length (rows df0)) b) df0"
  from c obtain ts where ts: "getitem df1 ''timestamp'' = Series ts"
    and nr: "\<not> datetime_raises P (map snd ts)"
    by (auto simp: clean_def Let_def df1_def split: selection.splits if_splits)
  define df2 where "df2 = assign ''timestamp'' (to_datetime P (map snd ts)) df1"
  from c ts nr obtain ks where ks: "getitem df2 ''kWh'' = Series ks"
    by (auto simp: clean_def Let_def df1_def df2_def split: selection.splits)
  define df3 where "df3 = assign ''kWh'' (map (to_numeric P \<circ> snd) ks) df2"
  from c ts nr ks have fr: "fr = select [''timestamp'', ''kWh'', ''Building''] (dropna [''timestamp'', ''kWh''] df3)"
    by (auto simp: clean_def Let_def df1_def df2_def df3_def)
  from getitem_Series [OF ts] obtain i where i: "col_positions ''timestamp'' (columns df1) = [i]"
    by blast
  then have i_in: "''timestamp'' \<in> set (columns df1)"
    using col_positions_Nil_iff [of "''timestamp''" "columns df1"] by simp
  then have cols2: "columns df2 = columns df1"
    by (simp add: df2_def columns_assign)
  from getitem_Series [OF ks] obtain j where j: "col_positions ''kWh'' (columns df1) = [j]"
    by (auto simp: cols2)
  then have j_in: "''kWh'' \<in> set (columns df1)"
    using col_positions_Nil_iff [of "''kWh''" "columns df1"] by simp
  then have cols3: "columns df3 = columns df1"
    by (simp add: df3_def columns_assign cols2)
  have "\<exists>k. col_positions ''Building'' (columns df1) = [k]"
  proof (cases "''Building'' \<in> set (columns df0)")
    case True
    with bpos show ?thesis
      by (auto simp: df1_def columns_assign col_positions_Nil_iff)
  next
    case False
    then show ?thesis
      by (simp add: df1_def columns_assign col_positions_append_new)
  qed
  then obtain k where k: "col_positions ''Building'' (columns df1) = [k]"
    by blast
  have ilt: "i < length (columns df1)" "columns df1 ! i = ''timestamp''"
    using set_col_positions [of "''timestamp''" "columns df1"] i by auto
  have jlt: "j < length (columns df1)" "columns df1 ! j = ''kWh''"
    using set_col_positions [of "''kWh''" "columns df1"] j by auto
  have klt: "k < length (columns df1)" "columns df1 ! k = ''Building''"
    using set_col_positions [of "''Building''" "columns df1"] k by auto
  show "columns fr = [''timestamp'', ''kWh'', ''Building'']"
    by (simp add: fr select_def dropna_def cols3 i j k)
  assume "(l, r) \<in> set (rows fr)"
  then obtain r3 where r3: "(l, r3) \<in> set (rows df3)"
    and na: "\<not> isna (cell_at i r3)" "\<not> isna (cell_at j r3)"
    and r: "r = [cell_at i r3, cell_at j r3, cell_at k r3]"
    by (auto simp: fr select_def dropna_def cols3 i j k)
  from assign_rows [OF r3 [unfolded df3_def]]
  obtain r2 v3 where m3: "((l, r2), v3) \<in> set (zip (rows df2) (map (to_numeric P \<circ> snd) ks))"
    and j3: "cell_at j r3 = v3"
    and i3: "cell_at i r3 = cell_at i r2" and k3: "cell_at k r3 = cell_at k r2"
    using ilt jlt klt j by (auto simp: columns_assign cols2 j_in)
  from m3 have "v3 \<in> set (map (to_numeric P \<circ> snd) ks)"
    by (rule set_zip_rightD)
  then obtain x where x: "v3 = Num x"
    using to_numeric_Num by auto
  from m3 have r2: "(l, r2) \<in> set (rows df2)"
    by (rule set_zip_leftD)
  from assign_rows [OF r2 [unfolded df2_def]]
  obtain r1 v2 where m2: "((l, r1), v2) \<in> set (zip (rows df1) (to_datetime P (map snd ts)))"
    and i2: "cell_at i r2 = v2" and k2: "cell_at k r2 = cell_at k r1"
    using ilt klt i by (auto simp: columns_assign i_in)
  from m2 have "v2 \<in> set (to_datetime P (map snd ts))"
    by (rule set_zip_rightD)
  then have v2: "v2 = NaT \<or> (\<exists>t z. v2 = Time t z)"
    by (rule to_datetime_cases)
  from m2 have r1: "(l, r1) \<in> set (rows df1)"
    by (rule set_zip_leftD)
  from assign_rows [OF r1 [unfolded df1_def]]
  obtain r0 v1 where m1: "((l, r0), v1) \<in> set (zip (rows df0) (replicate (length (rows df0)) b))"
    and k1: "cell_at k r1 = v1"
    using k by (auto simp: df1_def)
  from m1 have "v1 = b"
    by (rule zip_replicate_snd)
  with k1 k2 k3 have "cell_at k r3 = b"
    by simp
  moreover from na(1) i3 i2 v2 obtain t z where "cell_at i r3 = Time t z"
    by auto
  moreover from na(2) j3 x have "cell_at j r3 = Num x" "x \<noteq> NaN"
    by auto
  ultimately show "\<exists>t z x. r = [Time t z, Num x, b] \<and> x \<noteq> NaN"
    by (simp add: r)
qed

subsection \<open>Column names\<close>

lemma col_map_step_apply:
  "col_map_step a m c = (if c = a \<and> canonical c \<noteq> None then canonical c else m c)"
  by (cases "c = a") (auto simp: col_map_step_def canonical_def Let_def)

lemma fold_col_map_step:
  "fold col_map_step cs m c = (if c \<in> set cs \<and> canonical c \<noteq> None then canonical c else m c)"
  by (induction cs arbitrary: m) (auto simp: col_map_step_apply)

lemma col_map_eq: "col_map cs c = (if c \<in> set cs then canonical c else None)"
  by (simp add: col_map_def fold_col_map_step)

lemma columns_rename: "columns (rename (col_map (columns df)) df) = map new_name (columns df)"
  by (simp add: rename_def col_map_eq new_name_def)

lemma canonical_Building: "canonical ''Building'' = None"
  by code_simp

lemma canonical_range: "canonical c = Some n \<Longrightarrow> n = ''kWh'' \<or> n = ''timestamp''"
  by (auto simp: canonical_def Let_def split: if_splits)

lemma new_name_Building: "(new_name c = ''Building'') = (c = ''Building'')"
proof (cases "canonical c")
  case None
  then show ?thesis by (simp add: new_name_def)
next
  case (Some n)
  with canonical_range [OF Some] canonical_Building show ?thesis
    by (auto simp: new_name_def)
qed

lemma col_positions_Building_rename:
  "col_positions ''Building'' (map new_name cs) = col_positions ''Building'' cs"
  by (rule col_positions_map) (rule new_name_Building)

subsection \<open>One file\<close>

lemma building_of_positions:
  assumes "building_of f df = Some b"
  shows "col_positions ''Building'' (columns df) = [] \<or> (\<exists>k. col_positions ''Building'' (columns df) = [k])"
proof (cases "''Building'' \<in> set (columns df)")
  case True
  with assms obtain s where "getitem df ''Building'' = Series s"
    by (auto simp: building_of_def split: selection.splits)
  from getitem_Series [OF this] show ?thesis by blast
next
  case False
  then show ?thesis by (simp add: col_positions_Nil_iff)
qed

lemma process_file_Cleaned:
  assumes "process_file P f = Cleaned fr"
  shows "\<exists>df b. content f = Some df \<and> building_of f df = Some b
     \<and> clean P b (rename (col_map (columns df)) df) = Cleaned fr"
  using assms by (auto simp: process_file_def Let_def split: option.splits if_splits)

lemma process_file_rows:
  assumes "process_file P f = Cleaned fr"
  shows "columns fr = [''timestamp'', ''kWh'', ''Building'']"
    and "(l, r) \<in> set (rows fr) \<Longrightarrow> \<exists>t z x b. r = [Time t z, Num x, b] \<and> x \<noteq> NaN"
proof -
  from process_file_Cleaned [OF assms] obtain df b where
    b: "building_of f df = Some b" and c: "clean P b (rename (col_map (columns df)) df) = Cleaned fr"
    by blast
  have pos: "col_positions ''Building'' (columns (rename (col_map (columns df)) df)) = []
      \<or> (\<exists>k. col_positions ''Building'' (columns (rename (col_map (columns df)) df)) = [k])"
    using building_of_positions [OF b]
    by (simp add: columns_rename col_positions_Building_rename)
  show "columns fr = [''timestamp'', ''kWh'', ''Building'']"
    by (rule clean_rows(1) [OF c pos])
  assume "(l, r) \<in> set (rows fr)"
  from clean_rows(2) [OF c pos this] show "\<exists>t z x b. r = [Time t z, Num x, b] \<and> x \<noteq> NaN"
    by blast
qed

lemma process_file_cleaned_frame: "process_file P f = Cleaned fr \<Longrightarrow> cleaned_frame fr"
  using process_file_rows [of P f fr]
  by (fastforce simp: cleaned_frame_def list_all_iff)

subsection \<open>The loop\<close>

lemma ingest_step_frames:
  "frames (ingest_step P f st) = frames st @ (case process_file P f of Cleaned fr \<Rightarrow> [fr] | _ \<Rightarrow> [])"
  by (simp add: ingest_step_def split: outcome.splits)

lemma ingest_step_bad_files:
  "bad_files (ingest_step P f st)
     = bad_files st @ (case process_file P f of Cleaned fr \<Rightarrow> [] | _ \<Rightarrow> [path f])"
  by (simp add: ingest_step_def split: outcome.splits)

lemma fold_ingest_step:
  "frames (fold (ingest_step P) files st) = frames st @ cleaned_frames P files
   \<and> bad_files (fold (ingest_step P) files st) = bad_files st @ bad_paths P files"
  by (induction files arbitrary: st)
    (simp_all add: cleaned_frames_def bad_paths_def ingest_step_frames ingest_step_bad_files)

lemma cleaned_frames_all: "list_all cleaned_frame (cleaned_frames P files)"
  by (induction files)
    (auto simp: cleaned_frames_def process_file_cleaned_frame split: outcome.splits)

lemma col_positions_append_other:
  "c \<noteq> c' \<Longrightarrow> col_positions c (cs @ [c']) = col_positions c cs"
  by (auto simp: col_positions_def nth_append intro: filter_cong)

lemma rows_assign:
  "rows (assign c vs df) = map (\<lambda>((l, r), v). (l, upd_row c (columns df) r v)) (zip (rows df) vs)"
proof (cases "col_positions c (columns df) = []")
  case True
  then show ?thesis by (simp add: assign_def upd_row_def)
next
  case False
  then show ?thesis by (simp add: assign_existing upd_row_def)
qed

lemma cell_at_upd_row_same:
  assumes "p \<in> set (col_positions c (if c \<in> set cs then cs else cs @ [c]))"
  shows "cell_at p (upd_row c cs r v) = v"
proof (cases "c \<in> set cs")
  case False
  with assms show ?thesis
    by (simp add: upd_row_def col_positions_Nil_iff col_positions_append_new cell_at_def length_pad nth_append)
next
  case True
  then have ne: "col_positions c cs \<noteq> []"
    by (simp add: col_positions_Nil_iff)
  from assms True have p: "p \<in> set (col_positions c cs)" by simp
  then have "p < length (pad (length cs) r)"
    by (simp add: set_col_positions length_pad)
  then show ?thesis
    using p nth_fold_update [of p "pad (length cs) r" v "col_positions c cs"]
    by (simp add: upd_row_def ne cell_at_def length_fold_update)
qed

lemma cell_at_upd_row_other:
  assumes "q < length cs" and "cs ! q \<noteq> c"
  shows "cell_at q (upd_row c cs r v) = cell_at q r"
proof (cases "col_positions c cs = []")
  case True
  with assms show ?thesis
    using cell_at_pad [of q "length cs" r]
    by (simp add: upd_row_def cell_at_def nth_append length_pad)
next
  case False
  from assms have "q \<notin> set (col_positions c cs)"
    by (simp add: set_col_positions)
  moreover from assms have "q < length (pad (length cs) r)"
    by (simp add: length_pad)
  ultimately show ?thesis
    using False nth_fold_update [of q "pad (length cs) r" v "col_positions c cs"]
      cell_at_pad [of q "length cs" r]
    by (simp add: upd_row_def cell_at_def length_fold_update length_pad)
qed

lemma pad_same: "length r = n \<Longrightarrow> pad n r = r"
  by (auto simp: pad_def cell_at_def intro: nth_equalityI)

lemma upd_row_same:
  assumes "length r = length cs" and "col_positions c cs = [p]"
  shows "upd_row c cs r (cell_at p r) = r"
proof -
  from assms(2) have "p < length cs"
    using set_col_positions [of c cs] by auto
  with assms show ?thesis
    by (simp add: upd_row_def pad_same cell_at_def)
qed

lemma zip_map_map: "zip (map f xs) (map g xs) = map (\<lambda>x. (f x, g x)) xs"
  by (induction xs) auto

lemma zip_replicate_same: "zip xs (replicate (length xs) b) = map (\<lambda>x. (x, b)) xs"
  by (induction xs) auto

lemma zip_map_right: "zip xs (map g xs) = map (\<lambda>x. (x, g x)) xs"
  by (induction xs) auto

lemma clean_rows_eq:
  assumes c: "clean P b df0 = Cleaned fr"
    and bpos: "col_positions ''Building'' (columns df0) = [] \<or> (\<exists>k. col_positions ''Building'' (columns df0) = [k])"
  shows "\<exists>i j. col_positions ''timestamp'' (columns df0) = [i]
     \<and> col_positions ''kWh'' (columns df0) = [j]
     \<and> \<not> datetime_raises P (map (\<lambda>(l, r). cell_at i r) (rows df0))
     \<and> rows fr = map (\<lambda>(l, r). (l, [parsed_time P (map (\<lambda>(l, r). cell_at i r) (rows df0)) (cell_at i r),
                                    to_numeric P (cell_at j r), b]))
          (filter (\<lambda>(l, r). \<not> isna (parsed_time P (map (\<lambda>(l, r). cell_at i r) (rows df0)) (cell_at i r))
                          \<and> \<not> isna (to_numeric P (cell_at j r))) (rows df0))"
proof -
  define cs0 where "cs0 = columns df0"
  define df1 where "df1 = assign ''Building'' (replicate (length (rows df0)) b) df0"
  define cs1 where "cs1 = (if ''Building'' \<in> set cs0 then cs0 else cs0 @ [''Building''])"
  have cols1: "columns df1 = cs1"
    by (simp add: df1_def cs1_def cs0_def columns_assign)
  from c obtain ts where ts: "getitem df1 ''timestamp'' = Series ts"
    and nr: "\<not> datetime_raises P (map snd ts)"
    by (auto simp: clean_def Let_def df1_def split: selection.splits if_splits)
  define df2 where "df2 = assign ''timestamp'' (to_datetime P (map snd ts)) df1"
  from c ts nr obtain ks where ks: "getitem df2 ''kWh'' = Series ks"
    by (auto simp: clean_def Let_def df1_def df2_def split: selection.splits)
  define df3 where "df3 = assign ''kWh'' (map (to_numeric P \<circ> snd) ks) df2"
  from c ts nr ks have fr: "fr = select [''timestamp'', ''kWh'', ''Building''] (dropna [''timestamp'', ''kWh''] df3)"
    by (auto simp: clean_def Let_def df1_def df2_def df3_def)
  have pos_same: "col_positions c cs1 = col_positions c cs0" if "c \<noteq> ''Building''" for c
    using that by (simp add: cs1_def col_positions_append_other)
  from getitem_Series [OF ts] obtain i where i1: "col_positions ''timestamp'' cs1 = [i]"
    and ts_eq: "ts = map (\<lambda>(l, r). (l, cell_at i r)) (rows df1)"
    by (auto simp: cols1)
  from i1 have i: "col_positions ''timestamp'' cs0 = [i]"
    by (simp add: pos_same)
  have i_in: "''timestamp'' \<in> set cs1"
    using col_positions_Nil_iff [of "''timestamp''" cs1] i1 by simp
  have cols2: "columns df2 = cs1"
    by (simp add: df2_def columns_assign cols1 i_in)
  from getitem_Series [OF ks] obtain j where j1: "col_positions ''kWh'' cs1 = [j]"
    and ks_eq: "ks = map (\<lambda>(l, r). (l, cell_at j r)) (rows df2)"
    by (auto simp: cols2)
  from j1 have j: "col_positions ''kWh'' cs0 = [j]"
    by (simp add: pos_same)
  have j_in: "''kWh'' \<in> set cs1"
    using col_positions_Nil_iff [of "''kWh''" cs1] j1 by simp
  have cols3: "columns df3 = cs1"
    by (simp add: df3_def columns_assign cols2 j_in)
  have "\<exists>k. col_positions ''Building'' cs1 = [k]"
  proof (cases "''Building'' \<in> set cs0")
    case True
    with bpos show ?thesis
      by (auto simp: cs1_def cs0_def col_positions_Nil_iff)
  next
    case False
    then show ?thesis
      by (simp add: cs1_def col_positions_append_new)
  qed
  then obtain k where k: "col_positions ''Building'' cs1 = [k]"
    by blast
  have ilt: "i < length cs0" "cs0 ! i = ''timestamp''" "i < length cs1" "cs1 ! i = ''timestamp''"
    using set_col_positions [of "''timestamp''" cs0] set_col_positions [of "''timestamp''" cs1] i i1 by auto
  have jlt: "j < length cs0" "cs0 ! j = ''kWh''" "j < length cs1" "cs1 ! j = ''kWh''"
    using set_col_positions [of "''kWh''" cs0] set_col_positions [of "''kWh''" cs1] j j1 by auto
  have klt: "k < length cs1" "cs1 ! k = ''Building''"
    using set_col_positions [of "''Building''" cs1] k by auto
  define u1 where "u1 r = upd_row ''Building'' cs0 r b" for r
  have rows1: "rows df1 = map (\<lambda>(l, r). (l, u1 r)) (rows df0)"
    by (simp add: df1_def rows_assign zip_replicate_same u1_def cs0_def case_prod_unfold)
  have u1_i: "cell_at i (u1 r) = cell_at i r" for r
    unfolding u1_def using ilt(1,2) by (intro cell_at_upd_row_other) simp_all
  have u1_j: "cell_at j (u1 r) = cell_at j r" for r
    unfolding u1_def using jlt(1,2) by (intro cell_at_upd_row_other) simp_all
  have u1_k: "cell_at k (u1 r) = b" for r
    unfolding u1_def using k by (intro cell_at_upd_row_same) (simp add: cs1_def)
  define col where "col = map (\<lambda>(l, r). cell_at i r) (rows df0)"
  have col: "map snd ts = col"
    by (simp add: ts_eq rows1 col_def case_prod_unfold comp_def u1_i)
  define u2 where "u2 r = upd_row ''timestamp'' cs1 (u1 r) (parsed_time P col (cell_at i r))" for r
  have dt: "to_datetime P col = map (\<lambda>(l, r). parsed_time P col (cell_at i r)) (rows df0)"
    unfolding to_datetime_def parsed_time_def by (simp add: col_def case_prod_unfold comp_def)
  have rows2: "rows df2 = map (\<lambda>(l, r). (l, u2 r)) (rows df0)"
    by (simp add: df2_def rows_assign col cols1 rows1 dt zip_map_map u2_def case_prod_unfold comp_def)
  have u2_i: "cell_at i (u2 r) = parsed_time P col (cell_at i r)" for r
    unfolding u2_def using i1 i_in by (intro cell_at_upd_row_same) simp
  have u2_j: "cell_at j (u2 r) = cell_at j r" for r
    unfolding u2_def using jlt(3,4) by (simp add: cell_at_upd_row_other u1_j)
  have u2_k: "cell_at k (u2 r) = b" for r
    unfolding u2_def using klt by (simp add: cell_at_upd_row_other u1_k)
  define u3 where "u3 r = upd_row ''kWh'' cs1 (u2 r) (to_numeric P (cell_at j r))" for r
  have tn: "map (to_numeric P \<circ> snd) ks = map (\<lambda>(l, r). to_numeric P (cell_at j r)) (rows df0)"
    by (simp add: ks_eq rows2 case_prod_unfold comp_def u2_j)
  have rows3: "rows df3 = map (\<lambda>(l, r). (l, u3 r)) (rows df0)"
    unfolding df3_def rows_assign tn cols2 rows2
    by (simp add: zip_map_map u3_def case_prod_unfold comp_def)
  have u3_i: "cell_at i (u3 r) = parsed_time P col (cell_at i r)" for r
    unfolding u3_def using ilt(3,4) by (simp add: cell_at_upd_row_other u2_i)
  have u3_j: "cell_at j (u3 r) = to_numeric P (cell_at j r)" for r
    unfolding u3_def using j1 j_in by (intro cell_at_upd_row_same) simp
  have u3_k: "cell_at k (u3 r) = b" for r
    unfolding u3_def using klt by (simp add: cell_at_upd_row_other u2_k)
  have "rows fr = map (\<lambda>(l, r). (l, [cell_at i r, cell_at j r, cell_at k r]))
      (filter (\<lambda>(l, r). \<not> isna (cell_at i r) \<and> \<not> isna (cell_at j r)) (rows df3))"
    by (simp add: fr select_def dropna_def cols3 i1 j1 k case_prod_unfold)
  also have "\<dots> = map (\<lambda>(l, r). (l, [parsed_time P col (cell_at i r), to_numeric P (cell_at j r), b]))
      (filter (\<lambda>(l, r). \<not> isna (parsed_time P col (cell_at i r)) \<and> \<not> isna (to_numeric P (cell_at j r))) (rows df0))"
    by (simp add: rows3 filter_map comp_def case_prod_unfold u3_i u3_j u3_k)
  finally have "rows fr = map (\<lambda>(l, r). (l, [parsed_time P col (cell_at i r), to_numeric P (cell_at j r), b]))
      (filter (\<lambda>(l, r). \<not> isna (parsed_time P col (cell_at i r)) \<and> \<not> isna (to_numeric P (cell_at j r))) (rows df0))" .
  with i j nr col show ?thesis
    by (simp add: cs0_def col_def)
qed

lemma clean_not_Failed:
  assumes i: "col_positions ''timestamp'' (columns df0) = [i]"
    and j: "col_positions ''kWh'' (columns df0) = [j]"
    and nr: "\<not> datetime_raises P (map (\<lambda>(l, r). cell_at i r) (rows df0))"
  shows "\<exists>fr. clean P b df0 = Cleaned fr"
proof -
  define cs0 where "cs0 = columns df0"
  define df1 where "df1 = assign ''Building'' (replicate (length (rows df0)) b) df0"
  define cs1 where "cs1 = (if ''Building'' \<in> set cs0 then cs0 else cs0 @ [''Building''])"
  have cols1: "columns df1 = cs1"
    by (simp add: df1_def cs1_def cs0_def columns_assign)
  have i1: "col_positions ''timestamp'' cs1 = [i]" and j1: "col_positions ''kWh'' cs1 = [j]"
    using i j by (simp_all add: cs1_def cs0_def col_positions_append_other)
  have ilt: "i < length cs0" "cs0 ! i = ''timestamp''"
    using set_col_positions [of "''timestamp''" cs0] i by (auto simp: cs0_def)
  have rows1: "rows df1 = map (\<lambda>(l, r). (l, upd_row ''Building'' cs0 r b)) (rows df0)"
    by (simp add: df1_def rows_assign zip_replicate_same cs0_def case_prod_unfold)
  have u1_i: "cell_at i (upd_row ''Building'' cs0 r b) = cell_at i r" for r
    using ilt by (intro cell_at_upd_row_other) simp_all
  define ts where "ts = map (\<lambda>(l, r). (l, cell_at i r)) (rows df1)"
  have g1: "getitem df1 ''timestamp'' = Series ts"
    by (simp add: getitem_def cols1 i1 ts_def)
  have col: "map snd ts = map (\<lambda>(l, r). cell_at i r) (rows df0)"
    by (simp add: ts_def rows1 case_prod_unfold comp_def u1_i)
  define df2 where "df2 = assign ''timestamp'' (to_datetime P (map snd ts)) df1"
  have "''timestamp'' \<in> set cs1"
    using col_positions_Nil_iff [of "''timestamp''" cs1] i1 by simp
  then have cols2: "columns df2 = cs1"
    by (simp add: df2_def columns_assign cols1)
  have g2: "getitem df2 ''kWh'' = Series (map (\<lambda>(l, r). (l, cell_at j r)) (rows df2))"
    by (simp add: getitem_def cols2 j1)
  from nr col have "\<not> datetime_raises P (map snd ts)"
    by simp
  then show ?thesis
    using g1 g2 by (simp add: clean_def Let_def df1_def [symmetric] df2_def [symmetric])
qed

lemma clean_not_MissingColumns: "clean P b df0 \<noteq> MissingColumns cs"
  by (simp add: clean_def Let_def split: selection.splits)

lemma concat_map_if: "concat (map (\<lambda>x. if K x then [G x] else []) xs) = map G (filter K xs)"
  by (induction xs) auto

lemma indexed_triple: "indexed [a, n, b] = (a, [n, b])"
  by (simp add: indexed_def cell_at_def)

lemma to_numeric_number_in: "to_numeric P c = Num (number_in P c)"
  by (cases c) simp_all

lemma reading_of_eq:
  "reading_of P col i j b r =
     (if \<not> isna (parsed_time P col (cell_at i r)) \<and> \<not> isna (to_numeric P (cell_at j r))
      then [indexed [parsed_time P col (cell_at i r), to_numeric P (cell_at j r), b]] else [])"
  by (cases "datetime_of P col (cell_at i r)"; cases "number_in P (cell_at j r)")
    (auto simp: reading_of_def parsed_time_def indexed_triple to_numeric_number_in)

lemma readings_of_positions:
  assumes "content f = Some df" and "building_of f df = Some b"
    and "col_positions ''timestamp'' (map new_name (columns df)) = [i]"
    and "col_positions ''kWh'' (map new_name (columns df)) = [j]"
  shows "readings_of P f =
     (if datetime_raises P (map (\<lambda>(l, r). cell_at i r) (rows df)) then []
      else concat (map (\<lambda>(l, r). reading_of P (map (\<lambda>(l, r). cell_at i r) (rows df)) i j b r) (rows df)))"
  using assms by (simp add: readings_of_def Let_def)

lemma readings_of_none:
  assumes "content f = Some df" and "building_of f df = Some b"
    and "\<not> (\<exists>i j. col_positions ''timestamp'' (map new_name (columns df)) = [i]
            \<and> col_positions ''kWh'' (map new_name (columns df)) = [j])"
  shows "readings_of P f = []"
  using assms by (auto simp: readings_of_def Let_def split: list.splits)

lemma process_file_readings: "file_readings P f = readings_of P f"
proof (cases "content f")
  case None
  then show ?thesis
    by (simp add: file_readings_def process_file_def readings_of_def)
next
  case (Some df)
  show ?thesis
  proof (cases "building_of f df")
    case None
    with Some show ?thesis
      by (simp add: file_readings_def process_file_def readings_of_def)
  next
    case (Some b)
    note c = \<open>content f = Some df\<close>
    define df0 where "df0 = rename (col_map (columns df)) df"
    have rows0: "rows df0 = rows df"
      by (simp add: df0_def rename_def)
    have cols0: "columns df0 = map new_name (columns df)"
      by (simp add: df0_def columns_rename)
    have pos: "col_positions ''Building'' (columns df0) = []
        \<or> (\<exists>k. col_positions ''Building'' (columns df0) = [k])"
      using building_of_positions [OF Some]
      by (simp add: df0_def columns_rename col_positions_Building_rename)
    show ?thesis
    proof (cases "process_file P f")
      case (Cleaned fr)
      with c Some have cl: "clean P b df0 = Cleaned fr"
        by (auto simp: process_file_def Let_def df0_def split: if_splits)
      from clean_rows_eq [OF cl pos] obtain i j where
        i: "col_positions ''timestamp'' (columns df0) = [i]"
        and j: "col_positions ''kWh'' (columns df0) = [j]"
        and nr: "\<not> datetime_raises P (map (\<lambda>(l, r). cell_at i r) (rows df0))"
        and rows: "rows fr = map (\<lambda>(l, r). (l, [parsed_time P (map (\<lambda>(l, r). cell_at i r) (rows df0)) (cell_at i r),
                                    to_numeric P (cell_at j r), b]))
          (filter (\<lambda>(l, r). \<not> isna (parsed_time P (map (\<lambda>(l, r). cell_at i r) (rows df0)) (cell_at i r))
                          \<and> \<not> isna (to_numeric P (cell_at j r))) (rows df0))"
        by blast
      have "readings_of P f = concat (map (\<lambda>(l, r). reading_of P (map (\<lambda>(l, r). cell_at i r) (rows df)) i j b r) (rows df))"
        using readings_of_positions [OF c Some i [unfolded cols0] j [unfolded cols0], of P] nr
        by (simp add: rows0)
      also have "\<dots> = map (indexed \<circ> snd) (rows fr)"
        by (simp add: rows rows0 reading_of_eq case_prod_unfold comp_def concat_map_if)
      finally show ?thesis
        by (simp add: file_readings_def Cleaned)
    next
      case (MissingColumns cs)
      with c Some have "\<not> (''timestamp'' \<in> set (columns df0) \<and> ''kWh'' \<in> set (columns df0))"
        using clean_not_MissingColumns [of P b df0 cs]
        by (auto simp: process_file_def Let_def df0_def split: if_splits)
      then have "\<not> (\<exists>i j. col_positions ''timestamp'' (columns df0) = [i]
            \<and> col_positions ''kWh'' (columns df0) = [j])"
        using col_positions_Nil_iff [of "''timestamp''" "columns df0"]
          col_positions_Nil_iff [of "''kWh''" "columns df0"] by auto
      from readings_of_none [OF c Some this [unfolded cols0]] show ?thesis
        by (simp add: file_readings_def MissingColumns)
    next
      case Failed
      show ?thesis
      proof (cases "\<exists>i j. col_positions ''timestamp'' (columns df0) = [i]
            \<and> col_positions ''kWh'' (columns df0) = [j]")
        case False
        from readings_of_none [OF c Some False [unfolded cols0]] show ?thesis
          by (simp add: file_readings_def Failed)
      next
        case True
        then obtain i j where i: "col_positions ''timestamp'' (columns df0) = [i]"
          and j: "col_positions ''kWh'' (columns df0) = [j]"
          by blast
        then have mem: "''timestamp'' \<in> set (columns df0) \<and> ''kWh'' \<in> set (columns df0)"
          using col_positions_Nil_iff [of "''timestamp''" "columns df0"]
            col_positions_Nil_iff [of "''kWh''" "columns df0"] by simp
        with Failed c Some have "clean P b df0 = Failed"
          by (simp add: process_file_def Let_def df0_def)
        with clean_not_Failed [OF i j, of P b]
        have "datetime_raises P (map (\<lambda>(l, r). cell_at i r) (rows df0))"
          by auto
        with readings_of_positions [OF c Some i [unfolded cols0] j [unfolded cols0], of P]
        show ?thesis
          by (simp add: file_readings_def Failed rows0)
      qed
    qed
  qed
qed

subsection \<open>Combining the frames\<close>

lemma col_positions_timestamp3:
  "col_positions ''timestamp'' [''timestamp'', ''kWh'', ''Building''] = [0]"
  by (simp add: col_positions_def upt_rec)

lemma map_snd_enumerate: "map (\<lambda>(i, (l, r)). g r) (enumerate n xs) = map (\<lambda>(l, r). g r) xs"
  by (induction xs arbitrary: n) auto

lemma rows_concat_frames:
  "map snd (rows (concat_frames cs fs)) = all_rows fs"
proof -
  have "map snd (rows (concat_frames cs fs)) = map (\<lambda>(i, (l, r)). r) (enumerate 0 (concat (map rows fs)))"
    by (simp add: concat_frames_def case_prod_unfold)
  also have "\<dots> = map (\<lambda>(l, r). r) (concat (map rows fs))"
    by (rule map_snd_enumerate)
  also have "\<dots> = all_rows fs"
    by (simp add: all_rows_def map_concat case_prod_unfold comp_def)
  finally show ?thesis .
qed

lemma all_rows_reading:
  "list_all cleaned_frame fs \<Longrightarrow> r \<in> set (all_rows fs) \<Longrightarrow> reading_row r"
  by (fastforce simp: all_rows_def list_all_iff cleaned_frame_def)

lemma reading_row_cases:
  assumes "reading_row r"
  obtains t z x b where "r = [Time t z, Num x, b]" "x \<noteq> NaN"
  using assms by (elim reading_row.elims) auto

lemma assign_unchanged:
  assumes pos: "col_positions c (columns df) = [p]"
    and len: "\<forall>(l, r) \<in> set (rows df). length r = length (columns df)"
  shows "assign c (map (\<lambda>(l, r). cell_at p r) (rows df)) df = df"
proof -
  have "rows (assign c (map (\<lambda>(l, r). cell_at p r) (rows df)) df)
      = map (\<lambda>(l, r). (l, upd_row c (columns df) r (cell_at p r))) (rows df)"
    by (simp add: rows_assign zip_map_right case_prod_unfold)
  also have "\<dots> = map (\<lambda>lr. lr) (rows df)"
    using len by (intro map_cong) (auto simp: upd_row_same [OF _ pos])
  finally have "rows (assign c (map (\<lambda>(l, r). cell_at p r) (rows df)) df) = rows df"
    by simp
  moreover from pos have "col_positions c (columns df) \<noteq> []"
    by simp
  ultimately show ?thesis
    using assign_existing [of c df "map (\<lambda>(l, r). cell_at p r) (rows df)"] by simp
qed

lemma combine_cleaned:
  assumes "list_all cleaned_frame fs" and "fs \<noteq> []"
  shows "combine P fs = (if zones_accepted P (row_zones (all_rows fs)) then Inr (dataset_of fs) else Inl ValueError)"
proof -
  define combined where "combined = concat_frames [''timestamp'', ''kWh'', ''Building''] fs"
  have cols: "columns combined = [''timestamp'', ''kWh'', ''Building'']"
    by (simp add: combined_def concat_frames_def)
  have len: "\<forall>(l, r) \<in> set (rows combined). length r = length (columns combined)"
  proof -
    have "length r = 3" if "(l, r) \<in> set (rows combined)" for l r
    proof -
      from that have "r \<in> set (map snd (rows combined))"
        by force
      then have "r \<in> set (all_rows fs)"
        by (simp only: combined_def rows_concat_frames)
      from all_rows_reading [OF assms(1) this] show ?thesis
        by (rule reading_row_cases) simp
    qed
    then show ?thesis
      by (auto simp: cols)
  qed
  define ts where "ts = map (\<lambda>(l, r). (l, cell_at 0 r)) (rows combined)"
  have g: "getitem combined ''timestamp'' = Series ts"
    by (simp add: getitem_def cols col_positions_timestamp3 ts_def)
  have col: "map snd ts = map (\<lambda>(l, r). cell_at 0 r) (rows combined)"
    by (simp add: ts_def case_prod_unfold comp_def)
  have "map snd ts = map (cell_at 0) (map snd (rows combined))"
    by (simp add: ts_def case_prod_unfold comp_def)
  then have zs: "List.map_filter zone_of (map snd ts) = row_zones (all_rows fs)"
    by (simp only: combined_def rows_concat_frames row_zones_def)
  have same: "assign ''timestamp'' (map snd ts) combined = combined"
    unfolding col by (rule assign_unchanged [OF _ len]) (simp add: cols col_positions_timestamp3)
  have arr: "(case sort_values ''timestamp'' combined of Inl e \<Rightarrow> Inl e
      | Inr sorted_df \<Rightarrow> set_index ''timestamp'' sorted_df) = Inr (dataset_of fs)"
    using assms(2)
    by (simp add: sort_values_def set_index_def cols col_positions_timestamp3 dataset_of_def
        sorted_rows_def indexed_def case_prod_unfold comp_def combined_def [symmetric])
  show ?thesis
    by (simp add: combine_def Let_def combined_def [symmetric] g to_datetime_strict_def zs same arr)
qed

lemma mset_sorted_rows: "mset (sorted_rows R) = mset R"
proof -
  have "mset (sorted_rows R) = mset (filter (\<lambda>lr. time_at 0 lr \<noteq> None) R)
      + mset (filter (\<lambda>lr. \<not> time_at 0 lr \<noteq> None) R)"
    by (simp add: sorted_rows_def)
  then show ?thesis
    by (simp only: mset_filter multiset_partition [symmetric])
qed

lemma dataset_of_header:
  "index_name (dataset_of frs) = Some ''timestamp'' \<and> columns (dataset_of frs) = [''kWh'', ''Building'']"
  by (simp add: dataset_of_def empty_dataset_def)

lemma dataset_of_mset: "mset (rows (dataset_of frs)) = image_mset indexed (mset (all_rows frs))"
proof (cases "frs = []")
  case True
  then show ?thesis by (simp add: dataset_of_def empty_dataset_def all_rows_def)
next
  case False
  let ?R = "rows (concat_frames [''timestamp'', ''kWh'', ''Building''] frs)"
  from False have "mset (rows (dataset_of frs)) = image_mset (indexed \<circ> snd) (mset (sorted_rows ?R))"
    by (simp add: dataset_of_def)
  also have "\<dots> = image_mset indexed (mset (map snd ?R))"
    by (simp add: mset_sorted_rows multiset.map_comp)
  finally show ?thesis
    by (simp add: rows_concat_frames)
qed

lemma dataset_of_rows:
  assumes "list_all cleaned_frame frs" and "(l, r) \<in> set (rows (dataset_of frs))"
  shows "\<exists>t z x b. l = Time t z \<and> r = [Num x, b] \<and> x \<noteq> NaN"
proof -
  from assms(2) have "(l, r) \<in># mset (rows (dataset_of frs))"
    by simp
  then have "(l, r) \<in> indexed ` set (all_rows frs)"
    by (simp add: dataset_of_mset)
  then obtain r0 where r0: "r0 \<in> set (all_rows frs)" and lr: "(l, r) = indexed r0"
    by blast
  from all_rows_reading [OF assms(1) r0] obtain t z x b where "r0 = [Time t z, Num x, b]" "x \<noteq> NaN"
    by (rule reading_row_cases)
  with lr show ?thesis
    by (simp add: indexed_def cell_at_def)
qed

lemma dataset_of_sorted:
  assumes "list_all cleaned_frame frs"
  shows "\<exists>ts. map fst (rows (dataset_of frs)) = map (\<lambda>(t, z). Time t z) ts \<and> sorted (map fst ts)"
proof (cases "frs = []")
  case True
  then show ?thesis by (simp add: dataset_of_def empty_dataset_def)
next
  case False
  let ?R = "rows (concat_frames [''timestamp'', ''kWh'', ''Building''] frs)"
  let ?K = "\<lambda>lr. case time_at 0 lr of Some t \<Rightarrow> t | None \<Rightarrow> (0::int)"
  define Z where "Z lr = (case zone_of (cell_at 0 (snd lr)) of Some z \<Rightarrow> z | None \<Rightarrow> Naive)"
    for lr :: "cell \<times> cell list"
  have time: "cell_at 0 (snd lr) = Time (?K lr) (Z lr)" if "lr \<in> set ?R" for lr
  proof -
    from that have "snd lr \<in> set (map snd ?R)"
      by simp
    then have "snd lr \<in> set (all_rows frs)"
      by (simp only: rows_concat_frames)
    from all_rows_reading [OF assms this] obtain t z x b where "snd lr = [Time t z, Num x, b]"
      by (rule reading_row_cases)
    then show ?thesis
      by (simp add: time_at_def cell_at_def Z_def)
  qed
  have some: "time_at 0 lr \<noteq> None" if "lr \<in> set ?R" for lr
  proof -
    from time [OF that] obtain t z where "cell_at 0 (snd lr) = Time t z"
      by blast
    then show ?thesis
      by (simp add: time_at_def)
  qed
  then have "filter (\<lambda>lr. time_at 0 lr \<noteq> None) ?R = ?R" "filter (\<lambda>lr. time_at 0 lr = None) ?R = []"
    by (simp_all add: filter_id_conv filter_empty_conv)
  then have sr: "sorted_rows ?R = sort_key ?K ?R"
    by (simp add: sorted_rows_def)
  from False have "map fst (rows (dataset_of frs)) = map (\<lambda>lr. cell_at 0 (snd lr)) (sort_key ?K ?R)"
    by (simp add: dataset_of_def sr indexed_def comp_def)
  also have "\<dots> = map (\<lambda>lr. Time (?K lr) (Z lr)) (sort_key ?K ?R)"
    by (rule map_cong) (simp_all add: time)
  also have "\<dots> = map (\<lambda>(t, z). Time t z) (map (\<lambda>lr. (?K lr, Z lr)) (sort_key ?K ?R))"
    by (simp add: comp_def)
  finally have "map fst (rows (dataset_of frs))
      = map (\<lambda>(t, z). Time t z) (map (\<lambda>lr. (?K lr, Z lr)) (sort_key ?K ?R))" .
  moreover have "sorted (map fst (map (\<lambda>lr. (?K lr, Z lr)) (sort_key ?K ?R)))"
    using sorted_sort_key [of ?K ?R] by (simp add: comp_def)
  ultimately show ?thesis
    by blast
qed

subsection \<open>The whole call\<close>

lemma zones_accepted_Nil: "zones_accepted P []"
  by (simp add: zones_accepted_def)

lemma ingest_files_accepted:
  assumes "accepted P files"
  shows "\<exists>res. ingest_files P files = Inr res
     \<and> dataset res = dataset_of (cleaned_frames P files)
     \<and> skipped res = bad_paths P files"
proof (cases "files = []")
  case True
  then show ?thesis
    by (simp add: ingest_files_def dataset_of_def cleaned_frames_def bad_paths_def)
next
  case False
  show ?thesis
  proof (cases "cleaned_frames P files = []")
    case True
    with False show ?thesis
      by (simp add: ingest_files_def Let_def fold_ingest_step dataset_of_def)
  next
    case ne: False
    from combine_cleaned [OF cleaned_frames_all ne, of P] assms
    have "combine P (cleaned_frames P files) = Inr (dataset_of (cleaned_frames P files))"
      by (simp add: accepted_def)
    with False ne show ?thesis
      by (simp add: ingest_files_def Let_def fold_ingest_step)
  qed
qed

lemma ingest_files_refused:
  assumes "\<not> accepted P files"
  shows "ingest_files P files = Inl ValueError"
proof -
  have "accepted P files" if "cleaned_frames P files = []"
    using that by (simp add: accepted_def all_rows_def row_zones_def map_filter_simps zones_accepted_Nil)
  with assms have ne: "cleaned_frames P files \<noteq> []"
    by blast
  then have "files \<noteq> []"
    by (auto simp: cleaned_frames_def)
  moreover from combine_cleaned [OF cleaned_frames_all ne, of P] assms
  have "combine P (cleaned_frames P files) = Inl ValueError"
    by (simp add: accepted_def)
  ultimately show ?thesis
    using ne by (simp add: ingest_files_def Let_def fold_ingest_step)
qed

lemma ingest_files_Inr:
  assumes "ingest_files P files = Inr res"
  shows "accepted P files \<and> dataset res = dataset_of (cleaned_frames P files)
     \<and> skipped res = bad_paths P files"
proof (cases "accepted P files")
  case True
  with ingest_files_accepted [OF True] assms show ?thesis by auto
next
  case False
  with ingest_files_refused [OF False] assms show ?thesis by simp
qed

lemma ingest_files_Inl:
  assumes "ingest_files P files = Inl e"
  shows "e = ValueError \<and> \<not> accepted P files"
proof (cases "accepted P files")
  case True
  with ingest_files_accepted [OF True] assms show ?thesis by auto
next
  case False
  with ingest_files_refused [OF False] assms show ?thesis by simp
qed

subsection \<open>Column-name variants, directories\<close>














lemma cleaned_frames_append:
  "cleaned_frames P (xs @ ys) = cleaned_frames P xs @ cleaned_frames P ys"
  by (simp add: cleaned_frames_def)

lemma bad_paths_append: "bad_paths P (xs @ ys) = bad_paths P xs @ bad_paths P ys"
  by (simp add: bad_paths_def)

lemma all_rows_append: "all_rows (xs @ ys) = all_rows xs @ all_rows ys"
  by (simp add: all_rows_def)

lemma process_file_missing_columns:
  assumes "content f = Some df"
    and "\<not> (''timestamp'' \<in> set (columns (rename (col_map (columns df)) df))
          \<and> ''kWh'' \<in> set (columns (rename (col_map (columns df)) df)))"
  shows "process_file P f = Failed \<or> process_file P f = MissingColumns (columns (rename (col_map (columns df)) df))"
  using assms by (auto simp: process_file_def Let_def split: option.splits)

lemma building_of_stem:
  "''Building'' \<notin> set (columns df) \<Longrightarrow> building_of f df = Some (Str (stem f))"
  by (simp add: building_of_def)


lemma ingest_csv_folder_files:
  "fs d = Some n \<Longrightarrow> ingest_csv_folder P fs d = ingest_files P (glob_csv n)"
  by (simp add: ingest_csv_folder_def)

lemma ingest_csv_folder_Inr:
  assumes "ingest_csv_folder P fs d = Inr res"
  shows "\<exists>n. fs d = Some n \<and> ingest_files P (glob_csv n) = Inr res"
  using assms by (auto simp: ingest_csv_folder_def split: option.splits)

lemma ingest_csv_folder_dataset:
  assumes "ingest_csv_folder P fs d = Inr res"
  shows "\<exists>files. dataset res = dataset_of (cleaned_frames P files)"
proof -
  from ingest_csv_folder_Inr [OF assms] obtain n where "ingest_files P (glob_csv n) = Inr res"
    by blast
  from ingest_files_Inr [OF this] show ?thesis
    by blast
qed







lemma file_readings_all_rows:
  "file_readings P f = map indexed (all_rows (cleaned_frames P [f]))"
  by (cases "process_file P f") (simp_all add: file_readings_def all_rows_def cleaned_frames_def)

lemma all_rows_readings:
  "map indexed (all_rows (cleaned_frames P files)) = concat (map (readings_of P) files)"
proof (induction files)
  case Nil
  show ?case by (simp add: all_rows_def cleaned_frames_def)
next
  case (Cons f files)
  have "map indexed (all_rows (cleaned_frames P (f # files)))
      = map indexed (all_rows (cleaned_frames P [f])) @ map indexed (all_rows (cleaned_frames P files))"
    using cleaned_frames_append [of P "[f]" files] by (simp add: all_rows_append)
  then show ?case
    by (simp add: Cons.IH file_readings_all_rows [symmetric] process_file_readings)
qed

lemma process_file_stem:
  assumes "content f = Some df" and "''Building'' \<notin> set (columns df)"
    and "process_file P f = Cleaned fr" and "(l, r) \<in> set (rows fr)"
  shows "\<exists>t x. r = [t, x, Str (stem f)]"
proof -
  from process_file_Cleaned [OF assms(3)] assms(1) obtain b where
    b: "building_of f df = Some b" and c: "clean P b (rename (col_map (columns df)) df) = Cleaned fr"
    by auto
  from b assms(2) have bs: "b = Str (stem f)"
    by (simp add: building_of_stem)
  have pos: "col_positions ''Building'' (columns (rename (col_map (columns df)) df)) = []
      \<or> (\<exists>k. col_positions ''Building'' (columns (rename (col_map (columns df)) df)) = [k])"
    using building_of_positions [OF b]
    by (simp add: columns_rename col_positions_Building_rename)
  from clean_rows(2) [OF c pos assms(4)] bs show ?thesis
    by blast
qed

subsection \<open>The peak reading\<close>

lemma fl_less_trans: "fl_less x y \<Longrightarrow> fl_less y z \<Longrightarrow> fl_less x z"
  by (cases x; cases y; cases z) auto

lemma fl_not_less_trans:
  "y \<noteq> NaN \<Longrightarrow> \<not> fl_less x y \<Longrightarrow> \<not> fl_less y z \<Longrightarrow> \<not> fl_less x z"
  by (cases x; cases y; cases z) auto

lemma fl_less_irrefl: "\<not> fl_less x x"
  by (cases x) auto

lemma first_max_is_max:
  assumes "\<forall>c \<in> set (b # cs). snd c \<noteq> NaN"
  shows "first_max b cs \<in> set (b # cs)
     \<and> (\<forall>c \<in> set (b # cs). \<not> fl_less (snd (first_max b cs)) (snd c))"
  using assms
proof (induction cs arbitrary: b)
  case Nil
  show ?case by (simp add: fl_less_irrefl)
next
  case (Cons c cs)
  let ?b = "if fl_less (snd b) (snd c) then c else b"
  from Cons.prems have "\<forall>x \<in> set (?b # cs). snd x \<noteq> NaN"
    by auto
  from Cons.IH [OF this]
  have mem: "first_max ?b cs \<in> set (?b # cs)"
    and mx: "\<forall>x \<in> set (?b # cs). \<not> fl_less (snd (first_max ?b cs)) (snd x)"
    by simp_all
  from mx have top: "\<not> fl_less (snd (first_max ?b cs)) (snd ?b)"
    by simp
  have nb: "snd ?b \<noteq> NaN"
    using Cons.prems by auto
  have "\<not> fl_less (snd (first_max ?b cs)) (snd b)"
  proof (cases "fl_less (snd b) (snd c)")
    case True
    with top show ?thesis
      using fl_less_trans [of "snd (first_max ?b cs)" "snd b" "snd c"] by auto
  next
    case False
    with top show ?thesis by simp
  qed
  moreover have "\<not> fl_less (snd (first_max ?b cs)) (snd c)"
  proof (cases "fl_less (snd b) (snd c)")
    case True
    with top show ?thesis by simp
  next
    case False
    with top nb show ?thesis
      using fl_not_less_trans [of "snd b" "snd (first_max ?b cs)" "snd c"] by simp
  qed
  ultimately show ?case
    using mem mx by auto
qed

lemma numeric_values_all:
  assumes "\<forall>(l, c) \<in> set s. \<exists>x. c = Num x"
  shows "numeric_values s = Inr (map (\<lambda>(l, c). (l, num_of c)) s)"
  using assms by (induction s rule: numeric_values.induct) auto

lemma filter_unique_label:
  "distinct (map fst s) \<Longrightarrow> (l, v) \<in> set s \<Longrightarrow> filter (\<lambda>(l', v'). l' = l) s = [(l, v)]"
proof (induction s)
  case Nil
  then show ?case by simp
next
  case (Cons a s)
  show ?case
  proof (cases "a = (l, v)")
    case True
    with Cons.prems(1) have "\<forall>x \<in> set s. fst x \<noteq> l"
      by (auto simp: image_iff)
    then have "filter (\<lambda>(l', v'). l' = l) s = []"
      by (auto simp: filter_empty_conv)
    with True show ?thesis by simp
  next
    case False
    with Cons.prems have in_s: "(l, v) \<in> set s" and d: "distinct (map fst s)" and "fst a \<notin> fst ` set s"
      by auto
    then have "fst a \<noteq> l"
      by (metis fst_conv image_eqI)
    with Cons.IH [OF d in_s] show ?thesis
      by (auto simp: case_prod_unfold)
  qed
qed

text \<open>
  With one row per timestamp \<^verbatim>\<open>find_peak_time\<close> is right: it returns the label and the
  kWh of a row whose kWh is the maximum of the column.
\<close>

lemma find_peak_time_unique_timestamps:
  assumes pos: "col_positions ''kWh'' (columns df) = [i]"
    and ne: "rows df \<noteq> []"
    and d: "distinct (map fst (rows df))"
    and num: "\<forall>(l, r) \<in> set (rows df). \<exists>x. cell_at i r = Num x \<and> x \<noteq> NaN"
  shows "\<exists>l r m. find_peak_time df = Inr [(''timestamp'', l), (''kWh'', Num m)]
     \<and> (l, r) \<in> set (rows df) \<and> cell_at i r = Num m
     \<and> is_max m (map (\<lambda>(l, r). num_of (cell_at i r)) (rows df))"
proof -
  define s where "s = map (\<lambda>(l, r). (l, cell_at i r)) (rows df)"
  define vs where "vs = map (\<lambda>(l, c). (l, num_of c)) s"
  have g: "getitem df ''kWh'' = Series s"
    by (simp add: getitem_def pos s_def)
  from pos have "columns df \<noteq> []"
    by (auto simp: col_positions_def)
  with ne have e: "\<not> df_empty df"
    by (simp add: df_empty_def)
  from num have allnum: "\<forall>(l, c) \<in> set s. \<exists>x. c = Num x"
    by (fastforce simp: s_def)
  then have nv: "numeric_values s = Inr vs"
    unfolding vs_def by (rule numeric_values_all)
  from num have nn: "\<forall>c \<in> set vs. snd c \<noteq> NaN"
    by (fastforce simp: vs_def s_def)
  then have f: "filter (\<lambda>(l, v). v \<noteq> NaN) vs = vs"
    by (auto simp: filter_id_conv)
  from ne obtain b cs where vs: "vs = b # cs"
    by (cases vs) (auto simp: vs_def s_def)
  define p where "p = first_max b cs"
  from first_max_is_max [of b cs] nn
  have pm: "p \<in> set vs" and px: "\<forall>c \<in> set vs. \<not> fl_less (snd p) (snd c)"
    by (simp_all add: vs p_def)
  from f vs have fv: "filter (\<lambda>(l, v). v \<noteq> NaN) vs = b # cs"
    by simp
  have idx: "idxmax s = Inr (fst p)"
    by (simp add: idxmax_def nv fv p_def)
  from pm obtain l r where lr: "(l, r) \<in> set (rows df)" and p: "p = (l, num_of (cell_at i r))"
    by (auto simp: vs_def s_def)
  from num lr obtain m where m: "cell_at i r = Num m"
    by auto
  from lr have "(l, Num m) \<in> set s"
    by (force simp: s_def m [symmetric])
  moreover have "distinct (map fst s)"
    using d by (simp add: s_def comp_def case_prod_unfold)
  ultimately have "filter (\<lambda>(l', v'). l' = l) s = [(l, Num m)]"
    by (intro filter_unique_label)
  then have loc: "loc l s = [Num m]"
    by (simp add: loc_def)
  have res: "find_peak_time df = Inr [(''timestamp'', l), (''kWh'', Num m)]"
    by (simp add: find_peak_time_def e g idx p loc)
  have vals: "map (\<lambda>(l, r). num_of (cell_at i r)) (rows df) = map snd vs"
    by (simp add: vs_def s_def comp_def case_prod_unfold)
  have "is_max m (map snd vs)"
    using pm px by (force simp: is_max_def list_all_iff p m)
  with res lr m vals show ?thesis
    by auto
qed

section \<open>Theorems\<close>

lemma col_positions_kWh: "col_positions ''kWh'' [''kWh'', ''Building''] = [0]"
  by (simp add: col_positions_def upt_rec)

text \<open>
  C1 (fails on the code). The claim: on a non-empty dataset \<^verbatim>\<open>find_peak_time\<close> returns the
  row with the maximum kWh, so the returned kWh is the maximum of the column. Two
  buildings reporting at the same timestamp give a dataset with a repeated index label;
  there \<^verbatim>\<open>idxmax\<close> finds the label of the maximum, but \<^verbatim>\<open>df.loc[idx, "kWh"]\<close> returns every
  row with that label and the code keeps the first. On the dataset with rows
  (t = 0, 5 kWh, A) and (t = 0, 10 kWh, B) the function returns 5 kWh, while the maximum
  of the column is 10. (On the empty dataset it returns the empty Series, as claimed.)
\<close>

theorem find_peak_time_shared_timestamp:
  "find_peak_time \<lparr>index_name = Some ''timestamp'', columns = [''kWh'', ''Building''],
      rows = [(Time 0 Naive, [Num (Fin 5), Str ''A'']), (Time 0 Naive, [Num (Fin 10), Str ''B''])]\<rparr>
     = Inr [(''timestamp'', Time 0 Naive), (''kWh'', Num (Fin 5))]
   \<and> is_max (Fin 10) [Fin 5, Fin 10] \<and> \<not> is_max (Fin 5) [Fin 5, Fin 10]
   \<and> find_peak_time empty_dataset = Inr []"
  by (simp add: find_peak_time_def df_empty_def getitem_def col_positions_kWh cell_at_def
      idxmax_def loc_def is_max_def empty_dataset_def)

text \<open>
  C5 (fails on the code). The claim: daily totals of an empty dataset are an empty
  result whose column is \<^verbatim>\<open>daily_kWh\<close>. The function returns before the renaming: the
  empty result has the column \<^verbatim>\<open>kWh\<close>, while the result for a dataset with rows (here the
  three readings of one day, 10, 5 and 15 kWh) has the column \<^verbatim>\<open>daily_kWh\<close>.
\<close>

theorem calculate_daily_totals_empty_column:
  "calculate_daily_totals empty_dataset = Inr (empty_frame [''kWh''])
   \<and> columns (empty_frame [''kWh'']) \<noteq> [''daily_kWh'']
   \<and> calculate_daily_totals \<lparr>index_name = Some ''timestamp'', columns = [''kWh'', ''Building''],
        rows = [(Time 1704067200000000000 Naive, [Num (Fin 10), Str ''A'']),
                (Time 1704069000000000000 Naive, [Num (Fin 5), Str ''Hall'']),
                (Time 1704070800000000000 Naive, [Num (Fin 15), Str ''A''])]\<rparr>
      = Inr \<lparr>index_name = Some ''date'', columns = [''daily_kWh''],
             rows = [(Time 1704067200000000000 Naive, [Num (Fin 30)])]\<rparr>"
  by (simp add: calculate_daily_totals_def df_empty_def getitem_def col_positions_kWh cell_at_def
      resample_D_sum_def ns_per_day_def fl_sum_def empty_dataset_def empty_frame_def)

text \<open>
  C6 (fails on the code). The claim: the building summary of an empty dataset, or of one
  without a \<^verbatim>\<open>Building\<close> column, is an empty result with the columns \<^verbatim>\<open>mean_kWh\<close>,
  \<^verbatim>\<open>min_kWh\<close>, \<^verbatim>\<open>max_kWh\<close>, \<^verbatim>\<open>total_kWh\<close>. The function returns before the renaming: in
  both cases the empty result has the columns \<^verbatim>\<open>mean\<close>, \<^verbatim>\<open>min\<close>, \<^verbatim>\<open>max\<close>, \<^verbatim>\<open>sum\<close>, while
  the summary of a dataset with rows has the renamed columns (here building A with 10 and
  15 kWh, building Hall with 5 kWh).
\<close>

theorem building_wise_summary_empty_columns:
  "building_wise_summary empty_dataset = Inr (empty_frame [''mean'', ''min'', ''max'', ''sum''])
   \<and> building_wise_summary \<lparr>index_name = Some ''timestamp'', columns = [''kWh''],
        rows = [(Time 1704067200000000000 Naive, [Num (Fin 10)])]\<rparr>
      = Inr (empty_frame [''mean'', ''min'', ''max'', ''sum''])
   \<and> columns (empty_frame [''mean'', ''min'', ''max'', ''sum''])
        \<noteq> [''mean_kWh'', ''min_kWh'', ''max_kWh'', ''total_kWh'']
   \<and> building_wise_summary \<lparr>index_name = Some ''timestamp'', columns = [''kWh'', ''Building''],
        rows = [(Time 1704067200000000000 Naive, [Num (Fin 10), Str ''A'']),
                (Time 1704069000000000000 Naive, [Num (Fin 5), Str ''Hall'']),
                (Time 1704070800000000000 Naive, [Num (Fin 15), Str ''A''])]\<rparr>
      = Inr \<lparr>index_name = Some ''Building'',
             columns = [''mean_kWh'', ''min_kWh'', ''max_kWh'', ''total_kWh''],
             rows = [(Str ''A'', [Num (Fin (25 / 2)), Num (Fin 10), Num (Fin 15), Num (Fin 25)]),
                     (Str ''Hall'', [Num (Fin 5), Num (Fin 5), Num (Fin 5), Num (Fin 5)])]\<rparr>"
  by code_simp

text \<open>
  C2, as amended. Every row of the dataset that ingestion returns has a timestamp (never
  NaT) as its index label and a number that is not NaN as its kWh, and the dataset has
  the columns \<^verbatim>\<open>kWh\<close> and \<^verbatim>\<open>Building\<close>. Its rows are exactly the readings of the files:
  a row of a file whose time does not parse or whose energy is not a number is left out,
  every other row of a file that is not skipped is there with its parsed time and its
  number, and nothing else is. The number may be infinite: the code drops missing values
  only.
\<close>

theorem ingest_rows_not_missing:
  assumes "fs d = Some n" and "ingest_csv_folder P fs d = Inr res"
  shows "columns (dataset res) = [''kWh'', ''Building'']
     \<and> (\<forall>(l, r) \<in> set (rows (dataset res)). \<exists>t z x b. l = Time t z \<and> r = [Num x, b] \<and> x \<noteq> NaN)
     \<and> mset (rows (dataset res)) = mset (concat (map (readings_of P) (glob_csv n)))"
proof -
  from assms have "ingest_files P (glob_csv n) = Inr res"
    by (simp add: ingest_csv_folder_files)
  from ingest_files_Inr [OF this] have d: "dataset res = dataset_of (cleaned_frames P (glob_csv n))"
    by simp
  have "mset (rows (dataset res)) = mset (map indexed (all_rows (cleaned_frames P (glob_csv n))))"
    by (simp add: d dataset_of_mset)
  then have "mset (rows (dataset res)) = mset (concat (map (readings_of P) (glob_csv n)))"
    by (simp only: all_rows_readings)
  then show ?thesis
    using dataset_of_rows [OF cleaned_frames_all, of _ _ P "glob_csv n"]
      dataset_of_header [of "cleaned_frames P (glob_csv n)"]
    by (auto simp: d)
qed

text \<open>
  C2 as amended, on file D: of its three rows, one has a time that does not parse and one
  an energy that is not a number; the dataset holds the third row only.
\<close>

theorem ingest_rows_not_missing_witness:
  "scenario_fs ''d'' = Some (Directory [file_D])
   \<and> ingest_csv_folder scenario_parsers scenario_fs ''d''
       = Inr \<lparr>dataset = \<lparr>index_name = Some ''timestamp'', columns = [''kWh'', ''Building''],
                 rows = [(Time 1704069000000000000 Naive, [Num (Fin 15), Str ''D''])]\<rparr>,
              skipped = [], logged = [CombinedCreated 1 1]\<rparr>
   \<and> content file_D = Some \<lparr>index_name = None, columns = [''Time'', ''ENERGY'', ''building''],
       rows = [(Num (Fin 0), [Str ''2024-01-01 00:30'', Str ''15'', Str ''Hall'']),
               (Num (Fin 1), [Str ''not a time'', Str ''15'', Str ''Hall'']),
               (Num (Fin 2), [Str ''2024-01-01 01:00'', Str ''n/a'', Str ''Hall''])]\<rparr>
   \<and> concat (map (readings_of scenario_parsers) (glob_csv (Directory [file_D])))
       = [(Time 1704069000000000000 Naive, [Num (Fin 15), Str ''D''])]
   \<and> mset [(Time 1704069000000000000 Naive, [Num (Fin 15), Str ''D''])]
       = mset (concat (map (readings_of scenario_parsers) (glob_csv (Directory [file_D]))))"
proof -
  let ?res = "\<lparr>dataset = \<lparr>index_name = Some ''timestamp'', columns = [''kWh'', ''Building''],
                 rows = [(Time 1704069000000000000 Naive, [Num (Fin 15), Str ''D''])]\<rparr>,
              skipped = [], logged = [CombinedCreated 1 1]\<rparr>"
  have n: "scenario_fs ''d'' = Some (Directory [file_D])"
    by (simp add: scenario_fs_def)
  have h: "ingest_csv_folder scenario_parsers scenario_fs ''d'' = Inr ?res"
    by code_simp
  have l: "content file_D = Some \<lparr>index_name = None, columns = [''Time'', ''ENERGY'', ''building''],
       rows = [(Num (Fin 0), [Str ''2024-01-01 00:30'', Str ''15'', Str ''Hall'']),
               (Num (Fin 1), [Str ''not a time'', Str ''15'', Str ''Hall'']),
               (Num (Fin 2), [Str ''2024-01-01 01:00'', Str ''n/a'', Str ''Hall''])]\<rparr>"
    by (simp add: file_D_def)
  have r: "concat (map (readings_of scenario_parsers) (glob_csv (Directory [file_D])))
       = [(Time 1704069000000000000 Naive, [Num (Fin 15), Str ''D''])]"
    by code_simp
  from ingest_rows_not_missing [OF n h] n h l r show ?thesis
    by simp
qed

text \<open>
  C2 as stated fails: a reading that \<^verbatim>\<open>read_csv\<close> parsed as infinity (the field \<^verbatim>\<open>inf\<close>)
  passes \<^verbatim>\<open>to_numeric\<close> and \<^verbatim>\<open>dropna\<close> and is a row of the dataset.
\<close>

theorem ingest_keeps_infinite_kWh:
  "ingest_csv_folder scenario_parsers scenario_fs ''e''
     = Inr \<lparr>dataset = \<lparr>index_name = Some ''timestamp'', columns = [''kWh'', ''Building''],
               rows = [(Time 1704067200000000000 Naive, [Num PInf, Str ''E''])]\<rparr>,
            skipped = [], logged = [CombinedCreated 1 1]\<rparr>
   \<and> \<not> is_finite PInf"
  by code_simp






text \<open>
  C7. For a path that does not exist the call raises FileNotFoundError; for a path that
  exists it does not raise FileNotFoundError.
\<close>

theorem ingest_missing_directory:
  "(fs d = None \<longrightarrow> ingest_csv_folder P fs d = Inl FileNotFoundError)
   \<and> (fs d \<noteq> None \<longrightarrow> ingest_csv_folder P fs d \<noteq> Inl FileNotFoundError)"
proof (intro conjI impI)
  assume "fs d = None"
  then show "ingest_csv_folder P fs d = Inl FileNotFoundError"
    by (simp add: ingest_csv_folder_def)
next
  assume "fs d \<noteq> None"
  then obtain n where "fs d = Some n"
    by blast
  then have "ingest_csv_folder P fs d = ingest_files P (glob_csv n)"
    by (rule ingest_csv_folder_files)
  then show "ingest_csv_folder P fs d \<noteq> Inl FileNotFoundError"
    using ingest_files_Inl [of P "glob_csv n" FileNotFoundError] by auto
qed

text \<open>
  C7 on the scenario: a path that is absent; the data directory, where the call returns;
  and the directory of A and Z, where it raises, but ValueError.
\<close>

theorem ingest_missing_directory_witness:
  "scenario_fs ''nowhere'' = None
   \<and> ingest_csv_folder scenario_parsers scenario_fs ''nowhere'' = Inl FileNotFoundError
   \<and> scenario_fs ''data'' \<noteq> None
   \<and> ingest_csv_folder scenario_parsers scenario_fs ''data'' \<noteq> Inl FileNotFoundError
   \<and> scenario_fs ''az'' \<noteq> None
   \<and> ingest_csv_folder scenario_parsers scenario_fs ''az'' \<noteq> Inl FileNotFoundError"
proof -
  have n: "scenario_fs ''nowhere'' = None" and e: "scenario_fs ''data'' \<noteq> None"
    and z: "scenario_fs ''az'' \<noteq> None"
    by (simp_all add: scenario_fs_def)
  from ingest_missing_directory [of scenario_fs "''nowhere''" scenario_parsers]
    ingest_missing_directory [of scenario_fs "''data''" scenario_parsers]
    ingest_missing_directory [of scenario_fs "''az''" scenario_parsers] n e z
  show ?thesis
    by simp
qed

text \<open>
  C8. A file that was read and in which, after the renaming, \<^verbatim>\<open>timestamp\<close> and \<^verbatim>\<open>kWh\<close>
  are not both present is skipped: it has no readings, the call with the file ends as
  the call without it does (the same dataset when that one returns, the same exception
  when that one raises), and when the call returns the file's path is among the skipped
  files.
\<close>

theorem ingest_skips_file_without_columns:
  assumes "content f = Some df"
    and "\<not> (''timestamp'' \<in> set (columns (rename (col_map (columns df)) df))
          \<and> ''kWh'' \<in> set (columns (rename (col_map (columns df)) df)))"
  shows "readings_of P f = []
     \<and> map_sum (\<lambda>e. e) dataset (ingest_csv_folder P (fs(d \<mapsto> Directory (xs @ f # ys))) d)
       = map_sum (\<lambda>e. e) dataset (ingest_csv_folder P (fs(d \<mapsto> Directory (xs @ ys))) d)
     \<and> (\<forall>res. ingest_csv_folder P (fs(d \<mapsto> Directory (xs @ f # ys))) d = Inr res
            \<longrightarrow> path f \<in> set (skipped res))"
proof -
  from process_file_missing_columns [OF assms, of P]
  have c: "cleaned_frames P [f] = []" and b: "bad_paths P [f] = [path f]"
    and r: "file_readings P f = []"
    by (auto simp: cleaned_frames_def bad_paths_def file_readings_def)
  have cf: "cleaned_frames P (xs @ [f] @ ys) = cleaned_frames P (xs @ ys)"
    and bp: "path f \<in> set (bad_paths P (xs @ [f] @ ys))"
    by (simp_all only: cleaned_frames_append bad_paths_append c b set_append) simp_all
  then have acc: "accepted P (xs @ f # ys) = accepted P (xs @ ys)"
    by (simp add: accepted_def)
  have "map_sum (\<lambda>e. e) dataset (ingest_files P (xs @ f # ys))
      = map_sum (\<lambda>e. e) dataset (ingest_files P (xs @ ys))"
  proof (cases "accepted P (xs @ ys)")
    case True
    with acc ingest_files_accepted [of P "xs @ f # ys"] ingest_files_accepted [of P "xs @ ys"] cf
    show ?thesis by auto
  next
    case False
    with acc ingest_files_refused [of P "xs @ f # ys"] ingest_files_refused [of P "xs @ ys"]
    show ?thesis by simp
  qed
  moreover have "path f \<in> set (skipped res)" if "ingest_files P (xs @ f # ys) = Inr res" for res
    using ingest_files_Inr [OF that] bp by simp
  ultimately show ?thesis
    using r by (simp add: ingest_csv_folder_def process_file_readings)
qed

text \<open>C8 on the scenario, with file C (columns \<^verbatim>\<open>when\<close>, \<^verbatim>\<open>kWh\<close>) between A and B.\<close>

theorem ingest_skips_file_without_columns_witness:
  "content file_C = Some \<lparr>index_name = None, columns = [''when'', ''kWh''],
       rows = [(Num (Fin 0), [Str ''2024-01-01 00:30'', Num (Fin 7)])]\<rparr>
   \<and> \<not> (''timestamp'' \<in> set (columns (rename (col_map [''when'', ''kWh''])
            \<lparr>index_name = None, columns = [''when'', ''kWh''],
             rows = [(Num (Fin 0), [Str ''2024-01-01 00:30'', Num (Fin 7)])]\<rparr>))
        \<and> ''kWh'' \<in> set (columns (rename (col_map [''when'', ''kWh''])
            \<lparr>index_name = None, columns = [''when'', ''kWh''],
             rows = [(Num (Fin 0), [Str ''2024-01-01 00:30'', Num (Fin 7)])]\<rparr>)))
   \<and> readings_of scenario_parsers file_C = []
   \<and> ingest_csv_folder scenario_parsers (scenario_fs(''data'' \<mapsto> Directory ([file_A] @ file_C # [file_B]))) ''data''
       = Inr \<lparr>dataset = scenario_dataset, skipped = [''data/C.csv''],
              logged = [SkippingMissingColumns ''data/C.csv'' [''when'', ''kWh''], CombinedCreated 3 3,
                        FilesSkipped [''data/C.csv'']]\<rparr>
   \<and> map_sum (\<lambda>e. e) dataset (ingest_csv_folder scenario_parsers
         (scenario_fs(''data'' \<mapsto> Directory ([file_A] @ [file_B]))) ''data'') = Inr scenario_dataset
   \<and> path file_C \<in> set [''data/C.csv'']"
proof -
  let ?df = "\<lparr>index_name = None, columns = [''when'', ''kWh''],
       rows = [(Num (Fin 0), [Str ''2024-01-01 00:30'', Num (Fin 7)])]\<rparr>"
  let ?res = "\<lparr>dataset = scenario_dataset, skipped = [''data/C.csv''],
              logged = [SkippingMissingColumns ''data/C.csv'' [''when'', ''kWh''], CombinedCreated 3 3,
                        FilesSkipped [''data/C.csv'']]\<rparr>"
  have c: "content file_C = Some ?df"
    by (simp add: file_C_def)
  have m: "\<not> (''timestamp'' \<in> set (columns (rename (col_map (columns ?df)) ?df))
          \<and> ''kWh'' \<in> set (columns (rename (col_map (columns ?df)) ?df)))"
    by code_simp
  have h: "ingest_csv_folder scenario_parsers (scenario_fs(''data'' \<mapsto> Directory ([file_A] @ file_C # [file_B]))) ''data''
       = Inr ?res"
    by code_simp
  from ingest_skips_file_without_columns [OF c m, of scenario_parsers scenario_fs "''data''" "[file_A]" "[file_B]"]
  have "readings_of scenario_parsers file_C = []"
    and "map_sum (\<lambda>e. e) dataset (ingest_csv_folder scenario_parsers
         (scenario_fs(''data'' \<mapsto> Directory ([file_A] @ [file_B]))) ''data'') = Inr scenario_dataset"
    and "path file_C \<in> set (skipped ?res)"
    using h by simp_all
  with c m h show ?thesis
    by simp
qed

text \<open>
  C9. The dataset that ingestion returns is indexed by \<^verbatim>\<open>timestamp\<close>, its index labels
  are timestamps, and they are in ascending order.
\<close>

theorem ingest_sorted_by_timestamp:
  assumes "ingest_csv_folder P fs d = Inr res"
  shows "index_name (dataset res) = Some ''timestamp''
     \<and> (\<exists>ts. map fst (rows (dataset res)) = map (\<lambda>(t, z). Time t z) ts \<and> sorted (map fst ts))"
proof -
  from ingest_csv_folder_dataset [OF assms] obtain files
    where d: "dataset res = dataset_of (cleaned_frames P files)"
    by blast
  show ?thesis
    using dataset_of_sorted [OF cleaned_frames_all, of P files] dataset_of_header [of "cleaned_frames P files"]
    by (simp add: d)
qed

text \<open>C9 on the scenario.\<close>

theorem ingest_sorted_by_timestamp_witness:
  "ingest_csv_folder scenario_parsers scenario_fs ''data''
     = Inr \<lparr>dataset = scenario_dataset, skipped = [], logged = [CombinedCreated 3 2]\<rparr>
   \<and> index_name scenario_dataset = Some ''timestamp''
   \<and> (\<exists>ts. map fst (rows scenario_dataset) = map (\<lambda>(t, z). Time t z) ts \<and> sorted (map fst ts))"
proof -
  have h: "ingest_csv_folder scenario_parsers scenario_fs ''data''
     = Inr \<lparr>dataset = scenario_dataset, skipped = [], logged = [CombinedCreated 3 2]\<rparr>"
    by code_simp
  from ingest_sorted_by_timestamp [OF h] h show ?thesis
    by simp
qed

text \<open>
  C10. The test for the \<^verbatim>\<open>Building\<close> column is exact and comes before the renaming: for
  a file without a column spelled exactly \<^verbatim>\<open>Building\<close>, every row of its cleaned frame,
  and every row of the dataset of a directory holding only this file, carries the file's
  stem as its building.
\<close>

theorem building_from_file_name:
  assumes "content f = Some df" and "''Building'' \<notin> set (columns df)"
  shows "(\<forall>fr. process_file P f = Cleaned fr \<longrightarrow>
            (\<forall>(l, r) \<in> set (rows fr). \<exists>t x. r = [t, x, Str (stem f)]))
     \<and> (\<forall>res. ingest_csv_folder P (fs(d \<mapsto> Directory [f])) d = Inr res \<longrightarrow>
            (\<forall>(l, r) \<in> set (rows (dataset res)). \<exists>x. r = [x, Str (stem f)]))"
proof (intro conjI allI impI)
  fix fr
  assume "process_file P f = Cleaned fr"
  from process_file_stem [OF assms this]
  show "\<forall>(l, r) \<in> set (rows fr). \<exists>t x. r = [t, x, Str (stem f)]"
    by blast
next
  fix res
  assume "ingest_csv_folder P (fs(d \<mapsto> Directory [f])) d = Inr res"
  then have "ingest_files P [f] = Inr res"
    by (simp add: ingest_csv_folder_def)
  from ingest_files_Inr [OF this] have d: "dataset res = dataset_of (cleaned_frames P [f])"
    by simp
  have "\<exists>x. r = [x, Str (stem f)]" if "(l, r) \<in> set (rows (dataset res))" for l r
  proof -
    from that have "(l, r) \<in># mset (rows (dataset_of (cleaned_frames P [f])))"
      by (simp add: d)
    then obtain r0 where r0: "r0 \<in> set (all_rows (cleaned_frames P [f]))" and lr: "(l, r) = indexed r0"
      by (auto simp: dataset_of_mset)
    from r0 obtain fr l0 where "process_file P f = Cleaned fr" "(l0, r0) \<in> set (rows fr)"
      by (cases "process_file P f") (auto simp: all_rows_def cleaned_frames_def)
    from process_file_stem [OF assms this] lr show ?thesis
      by (auto simp: indexed_def)
  qed
  then show "\<forall>(l, r) \<in> set (rows (dataset res)). \<exists>x. r = [x, Str (stem f)]"
    by blast
qed

text \<open>
  C10 on file D, whose \<^verbatim>\<open>building\<close> column says Hall: the building of its row is D.
\<close>

theorem building_from_file_name_witness:
  "content file_D = Some \<lparr>index_name = None, columns = [''Time'', ''ENERGY'', ''building''],
       rows = [(Num (Fin 0), [Str ''2024-01-01 00:30'', Str ''15'', Str ''Hall'']),
               (Num (Fin 1), [Str ''not a time'', Str ''15'', Str ''Hall'']),
               (Num (Fin 2), [Str ''2024-01-01 01:00'', Str ''n/a'', Str ''Hall''])]\<rparr>
   \<and> ''Building'' \<notin> set [''Time'', ''ENERGY'', ''building'']
   \<and> ingest_csv_folder scenario_parsers (scenario_fs(''d'' \<mapsto> Directory [file_D])) ''d''
       = Inr \<lparr>dataset = \<lparr>index_name = Some ''timestamp'', columns = [''kWh'', ''Building''],
                 rows = [(Time 1704069000000000000 Naive, [Num (Fin 15), Str ''D''])]\<rparr>,
              skipped = [], logged = [CombinedCreated 1 1]\<rparr>
   \<and> (\<exists>x. [Num (Fin 15), Str ''D''] = [x, Str (stem file_D)])"
proof -
  let ?df = "\<lparr>index_name = None, columns = [''Time'', ''ENERGY'', ''building''],
       rows = [(Num (Fin 0), [Str ''2024-01-01 00:30'', Str ''15'', Str ''Hall'']),
               (Num (Fin 1), [Str ''not a time'', Str ''15'', Str ''Hall'']),
               (Num (Fin 2), [Str ''2024-01-01 01:00'', Str ''n/a'', Str ''Hall''])]\<rparr>"
  let ?res = "\<lparr>dataset = \<lparr>index_name = Some ''timestamp'', columns = [''kWh'', ''Building''],
                 rows = [(Time 1704069000000000000 Naive, [Num (Fin 15), Str ''D''])]\<rparr>,
              skipped = [], logged = [CombinedCreated 1 1]\<rparr>"
  have c: "content file_D = Some ?df"
    by (simp add: file_D_def)
  have b: "''Building'' \<notin> set (columns ?df)"
    by simp
  have h: "ingest_csv_folder scenario_parsers (scenario_fs(''d'' \<mapsto> Directory [file_D])) ''d'' = Inr ?res"
    by code_simp
  from building_from_file_name [OF c b, of scenario_parsers scenario_fs "''d''"] h
  have "\<forall>(l, r) \<in> set (rows (dataset ?res)). \<exists>x. r = [x, Str (stem file_D)]"
    by blast
  with c h show ?thesis
    by simp
qed

end
